theory Spec2Isabelle
  imports Complex_Main "HOL-Library.Log_Nat"
begin

section \<open>JavaScript strings and arrays\<close>

text \<open>
  Strings are modelled as lists of 8-bit code units (\<open>string\<close>), which covers the ASCII and
  Latin-1 range of JavaScript's UTF-16 strings; \<open>length\<close> is the JavaScript \<open>.length\<close>.
  JavaScript numbers are modelled exactly: integers as \<open>nat\<close>/\<open>int\<close>, fractional values
  (scores, similarities) as \<open>rat\<close>.
\<close>

definition isWhiteSpace :: "char \<Rightarrow> bool" where
  \<comment> \<open>the regex class \<open>\s\<close> and the characters removed by \<open>trim()\<close>, below U+0100\<close>
  "isWhiteSpace c = (of_char c \<in> {9, 10, 11, 12, 13, 32, 160 :: nat})"

definition toLowerChar :: "char \<Rightarrow> char" where
  "toLowerChar c =
     (let n = (of_char c :: nat)
      in if (65 \<le> n \<and> n \<le> 90) \<or> (192 \<le> n \<and> n \<le> 222 \<and> n \<noteq> 215)
         then char_of (n + 32) else c)"

definition toLowerCase :: "string \<Rightarrow> string" where
  "toLowerCase s = map toLowerChar s"

definition trim :: "string \<Rightarrow> string" where
  "trim s = rev (dropWhile isWhiteSpace (rev (dropWhile isWhiteSpace s)))"

text \<open>
  \<open>s.split(/[class]+/)\<close>: the separators are the maximal runs of characters of the class.
  The accumulator holds the characters of the current piece.
\<close>

function split_plus :: "(char \<Rightarrow> bool) \<Rightarrow> string \<Rightarrow> string \<Rightarrow> string list" where
  "split_plus sep acc [] = [acc]"
| "split_plus sep acc (c # cs) =
     (if sep c then acc # split_plus sep [] (dropWhile sep cs)
      else split_plus sep (acc @ [c]) cs)"
  by pat_completeness auto
termination
  by (relation "measure (\<lambda>(sep, acc, s). length s)")
     (auto simp: length_dropWhile_le less_Suc_eq_le)

text \<open>\<open>s.split(" ")\<close>: every single occurrence of the separator character splits.\<close>

fun split_char :: "char \<Rightarrow> string \<Rightarrow> string \<Rightarrow> string list" where
  "split_char sep acc [] = [acc]"
| "split_char sep acc (c # cs) =
     (if c = sep then acc # split_char sep [] cs else split_char sep (acc @ [c]) cs)"

fun join :: "string \<Rightarrow> string list \<Rightarrow> string" where
  "join sep [] = []"
| "join sep [x] = x"
| "join sep (x # y # ys) = x @ sep @ join sep (y # ys)"

fun startsWith :: "string \<Rightarrow> string \<Rightarrow> bool" where
  \<comment> \<open>\<open>startsWith s p\<close>: \<open>p\<close> is a prefix of \<open>s\<close>\<close>
  "startsWith s [] = True"
| "startsWith [] (p # ps) = False"
| "startsWith (c # cs) (p # ps) = (c = p \<and> startsWith cs ps)"

fun includes_str :: "string \<Rightarrow> string \<Rightarrow> bool" where
  \<comment> \<open>\<open>s.includes(t)\<close>\<close>
  "includes_str [] t = (t = [])"
| "includes_str (c # cs) t = (startsWith (c # cs) t \<or> includes_str cs t)"

definition slice0 :: "int \<Rightarrow> 'a list \<Rightarrow> 'a list" where
  \<comment> \<open>\<open>xs.slice(0, n)\<close>; a negative \<open>n\<close> counts from the end\<close>
  "slice0 n xs = (if 0 \<le> n then take (nat n) xs else take (length xs - nat (- n)) xs)"

definition slice_last :: "nat \<Rightarrow> 'a list \<Rightarrow> 'a list" where
  \<comment> \<open>\<open>xs.slice(-n)\<close> for \<open>n \<ge> 0\<close>; \<open>slice(-0)\<close> is \<open>slice(0)\<close>, the whole array\<close>
  "slice_last n xs = (if n = 0 then xs else drop (length xs - n) xs)"

section \<open>JavaScript numbers\<close>

text \<open>
  A JavaScript number is an IEEE 754 double. A finite double is modelled by the rational it
  denotes, and an arithmetic operation by the exact operation followed by \<open>toDouble\<close>, the
  rounding to the nearest double (53 significant bits), ties to the even significand.
  \<open>binade x\<close> is the exponent \<open>e\<close> with \<open>2^e \<le> x < 2^(e+1)\<close> of a positive \<open>x\<close>. The exponent
  range is not bounded in the model: a result below \<open>2^-1022\<close> or from \<open>2^1024\<close> on differs from
  the double (a subnormal, or \<open>Infinity\<close>).
\<close>

definition roundTiesToEven :: "rat \<Rightarrow> int" where
  "roundTiesToEven r =
     (let f = \<lfloor>r\<rfloor>; d = r - of_int f
      in if d < 1 / 2 then f else if 1 / 2 < d then f + 1 else if even f then f else f + 1)"

definition pow2 :: "int \<Rightarrow> rat" where
  "pow2 e = (if 0 \<le> e then 2 ^ nat e else 1 / 2 ^ nat (- e))"

definition binade :: "rat \<Rightarrow> int" where
  "binade x = (if 1 \<le> x then bitlen \<lfloor>x\<rfloor> - 1 else - bitlen (\<lceil>1 / x\<rceil> - 1))"

definition toDouble :: "rat \<Rightarrow> rat" where
  "toDouble x =
     (if x = 0 then 0
      else (let ulp = pow2 (binade \<bar>x\<bar> - 52)
            in of_int (roundTiesToEven (x / ulp)) * ulp))"

section \<open>Persisted schema (youtube-schema.ts)\<close>

type_synonym uuid = nat
type_synonym timestamp = nat
type_synonym embedding = "rat list"

record YouTubeChannel =
  ch_id :: uuid
  ch_channelId :: string
  ch_channelName :: string
  ch_channelUrl :: string
  ch_createdAt :: timestamp
  ch_updatedAt :: timestamp
  ch_isIndexed :: bool
  ch_lastIndexedAt :: "timestamp option"

record YouTubeVideo =
  v_id :: uuid
  v_videoId :: string
  v_channelId :: uuid
  v_title :: string
  v_description :: string
  v_publishedAt :: timestamp
  v_duration :: int
  v_viewCount :: int
  v_likeCount :: int
  v_thumbnailUrl :: string
  v_videoUrl :: string
  v_transcript :: string
  v_transcriptLength :: nat
  v_isTranscriptAvailable :: bool
  v_createdAt :: timestamp
  v_updatedAt :: timestamp

record TranscriptChunk =
  c_id :: uuid
  c_videoId :: uuid
  c_chunkIndex :: nat
  c_content :: string
  c_startTime :: nat
  c_endTime :: nat
  c_tokenCount :: nat
  c_embedding :: "embedding option"

record VideoKeyword =
  k_videoId :: uuid
  k_chunkId :: "uuid option"
  k_keyword :: string
  k_entityType :: string
  k_confidence :: int
  k_frequency :: int
  k_relevance :: int

record SearchQuery =
  q_channelId :: uuid
  q_query :: string
  q_queryEmbedding :: embedding
  q_resultsCount :: int
  q_executionTime :: int

record ChannelIndexStatus =
  s_channelId :: uuid
  s_status :: string
  s_progress :: int
  s_totalVideos :: nat
  s_processedVideos :: nat
  s_errorMessage :: "string option"
  s_completedAt :: "timestamp option"

text \<open>
  The database: one list of rows per table, in table order, and the next identifier the
  database hands out for a \<open>defaultRandom()\<close> primary key.
\<close>

record db =
  youtubeChannel :: "YouTubeChannel list"
  youtubeVideo :: "YouTubeVideo list"
  transcriptChunk :: "TranscriptChunk list"
  videoKeyword :: "VideoKeyword list"
  searchQuery :: "SearchQuery list"
  channelIndexStatus :: "ChannelIndexStatus list"
  nextId :: uuid

datatype error =
  ProviderError
  | DbError
  | InvalidChannelUrl
  | ChannelIdNotSet

section \<open>SemanticSearchService (semantic-search.ts)\<close>

record SearchOptions =
  o_channelId :: "string option"
  o_limit :: "int option"
  o_similarityThreshold :: "rat option"
  o_includeKeywords :: "bool option"

record SearchResult =
  r_chunk :: TranscriptChunk
  r_video :: YouTubeVideo
  r_channelName :: string
  r_channelUrl :: string
  r_relevanceScore :: rat
  r_matchedKeywords :: "string list"
  r_startTime :: nat
  r_endTime :: nat

text \<open>
  What lies outside the service: the outcome of the embedding request for a text, the
  cosine similarity \<open>1 - (a <=> b)\<close> the database computes, and, for every database call
  site of \<open>search\<close> and \<open>keywordSearch\<close>, whether that call rejects. The call sites inside
  the two result loops are keyed by the identifier of the chunk being processed.

  The keyword conditions of a query are joined with \<open>OR\<close> by \<open>sql.join\<close> and spliced into
  a condition with \<open>AND\<close>. Whether the query builder (not part of the repository) puts the
  spliced list in parentheses decides how the database reads the condition, since \<open>AND\<close>
  binds tighter than \<open>OR\<close>; the field \<open>or_list_parenthesised\<close> covers both readings.

  Likewise for \<open>.limit(n)\<close> with a negative \<open>n\<close>: either the clause reaches the database,
  which rejects a negative \<open>LIMIT\<close>, or the query builder leaves the clause out and every
  row is returned; the field \<open>negative_limit_rejected\<close> covers both.
\<close>

record env =
  embed_result :: "string \<Rightarrow> error + embedding"
  cosine_similarity :: "embedding \<Rightarrow> embedding \<Rightarrow> rat"
  resolve_fails :: bool
  log_fails :: bool
  vector_fails :: bool
  kw_resolve_fails :: bool
  kw_query_fails :: bool
  kw_video_fails :: "uuid \<Rightarrow> bool"
  kw_channel_fails :: "uuid \<Rightarrow> bool"
  video_fails :: "uuid \<Rightarrow> bool"
  channel_fails :: "uuid \<Rightarrow> bool"
  match_fails :: "uuid \<Rightarrow> bool"
  or_list_parenthesised :: bool
  negative_limit_rejected :: bool

definition sql_limit :: "int \<Rightarrow> 'a list \<Rightarrow> 'a list" where
  \<comment> \<open>the rows of an executed statement built with \<open>.limit(n)\<close>\<close>
  "sql_limit n rows = (if n < 0 then rows else take (nat n) rows)"

fun and_or_list :: "bool \<Rightarrow> bool list \<Rightarrow> bool" where
  \<comment> \<open>\<open>x AND c1 OR ... OR cn\<close> as SQL reads it without parentheses\<close>
  "and_or_list x [] = x"
| "and_or_list x (c # cs) = ((x \<and> c) \<or> list_ex (\<lambda>b. b) cs)"

fun or_list_and :: "bool list \<Rightarrow> bool \<Rightarrow> bool" where
  \<comment> \<open>\<open>c1 OR ... OR cn AND x\<close> as SQL reads it without parentheses\<close>
  "or_list_and [] x = x"
| "or_list_and [c] x = (c \<and> x)"
| "or_list_and (c # c' # cs) x = (c \<or> or_list_and (c' # cs) x)"

definition stopWords :: "string list" where
  "stopWords =
    [''the'', ''a'', ''an'', ''and'', ''or'', ''but'', ''in'', ''on'', ''at'', ''to'', ''for'',
     ''of'', ''with'', ''by'', ''is'', ''are'', ''was'', ''were'', ''be'', ''been'', ''being'',
     ''have'', ''has'', ''had'', ''do'', ''does'', ''did'', ''will'', ''would'', ''could'',
     ''should'', ''may'', ''might'', ''must'', ''can'', ''this'', ''that'', ''these'', ''those'',
     ''i'', ''you'', ''he'', ''she'', ''it'', ''we'', ''they'', ''me'', ''him'', ''her'', ''us'',
     ''them'', ''my'', ''your'', ''his'', ''her'', ''its'', ''our'', ''their'']"

definition isStopWord :: "string \<Rightarrow> bool" where
  "isStopWord word = List.member stopWords word"

definition extractKeywordsFromQuery :: "string \<Rightarrow> string list" where
  "extractKeywordsFromQuery query =
     filter (\<lambda>word. \<not> isStopWord word)
       (filter (\<lambda>word. length word > 2)
         (split_plus isWhiteSpace [] (toLowerCase query)))"

definition truthy :: "string option \<Rightarrow> string option" where
  \<comment> \<open>\<open>if (channelId)\<close> on an optional string: \<open>undefined\<close> and the empty string are falsy\<close>
  "truthy s = (case s of None \<Rightarrow> None | Some x \<Rightarrow> if x = [] then None else Some x)"

text \<open>
  The SQL operator \<open>subject LIKE pattern\<close> with the default escape character: \<open>%\<close> matches
  any sequence, \<open>_\<close> any one character, a backslash makes the next pattern character
  literal. A pattern that ends in a lone backslash is rejected by the database; the patterns
  built here always end in the \<open>%\<close> appended after the keyword, so that case does not arise
  (it is \<open>False\<close> in the model). \<open>LOWER\<close> is modelled by \<open>toLowerCase\<close>.
\<close>

fun sql_like :: "string \<Rightarrow> string \<Rightarrow> bool" where
  "sql_like [] s = (s = [])"
| "sql_like (p # ps) s =
     (if p = CHR ''%'' then
        (sql_like ps s \<or> (case s of [] \<Rightarrow> False | c # s' \<Rightarrow> sql_like (p # ps) s'))
      else if p = CHR ''_'' then
        (case s of [] \<Rightarrow> False | c # s' \<Rightarrow> sql_like ps s')
      else if p = CHR 0x5C then
        (case ps of [] \<Rightarrow> False
         | q # qs \<Rightarrow> (case s of [] \<Rightarrow> False | c # s' \<Rightarrow> c = q \<and> sql_like qs s'))
      else (case s of [] \<Rightarrow> False | c # s' \<Rightarrow> c = p \<and> sql_like ps s'))"

definition keywordCondition :: "string \<Rightarrow> VideoKeyword \<Rightarrow> bool" where
  \<comment> \<open>\<open>LOWER(keyword) LIKE LOWER('%' + keyword + '%')\<close>\<close>
  "keywordCondition keyword k =
     sql_like (toLowerCase (''%'' @ keyword @ ''%'')) (toLowerCase (k_keyword k))"

definition getVideoById :: "db \<Rightarrow> uuid \<Rightarrow> YouTubeVideo option" where
  "getVideoById d videoId =
     (case filter (\<lambda>v. v_id v = videoId) (youtubeVideo d) of
        [] \<Rightarrow> None | video # _ \<Rightarrow> Some video)"

definition getChannelById :: "db \<Rightarrow> uuid \<Rightarrow> (string \<times> string) option" where
  \<comment> \<open>the selected columns \<open>channelName\<close> and \<open>channelUrl\<close>\<close>
  "getChannelById d channelDbId =
     (case filter (\<lambda>c. ch_id c = channelDbId) (youtubeChannel d) of
        [] \<Rightarrow> None | channel # _ \<Rightarrow> Some (ch_channelName channel, ch_channelUrl channel))"

definition getChannelDbIdByHandle :: "db \<Rightarrow> string \<Rightarrow> uuid option" where
  "getChannelDbIdByHandle d channelHandle =
     (case filter (\<lambda>c. ch_channelId c = channelHandle) (youtubeChannel d) of
        [] \<Rightarrow> None | channel # _ \<Rightarrow> Some (ch_id channel))"

text \<open>
  The composite score of the vector path. The constants \<open>0.05\<close> and \<open>0.1\<close> are the exact
  rationals; \<open>split\<close> never returns the empty array, so \<open>queryWords\<close> is not empty.
\<close>

definition calculateRelevanceScore ::
  "TranscriptChunk \<Rightarrow> string \<Rightarrow> string list \<Rightarrow> rat \<Rightarrow> rat" where
  "calculateRelevanceScore chunk query matchedKeywords similarity =
     (let score0 = similarity;
          score1 = score0 + of_nat (length matchedKeywords) * (5 / 100);
          score2 = (if includes_str (toLowerCase (c_content chunk)) (toLowerCase query)
                    then score1 + 1 / 10 else score1);
          queryWords = split_plus isWhiteSpace [] (toLowerCase query);
          contentWords = split_plus isWhiteSpace [] (toLowerCase (c_content chunk));
          matchingWords =
            filter (\<lambda>word. list_ex (\<lambda>contentWord. includes_str contentWord word) contentWords)
              queryWords;
          score3 = score2
            + (of_nat (length matchingWords) / of_nat (length queryWords)) * (5 / 100)
      in min score3 1)"

text \<open>
  The keyword-only score of the fallback path. With an empty \<open>queryKeywords\<close> and a
  non-empty \<open>matchedKeywords\<close> the JavaScript division is \<open>0 / 0\<close>; \<open>keywordSearch\<close>
  returns before it can call the function with an empty \<open>queryKeywords\<close>, and nothing
  below relies on the value of the model in that case.
\<close>

definition calculateKeywordRelevanceScore :: "string list \<Rightarrow> string list \<Rightarrow> rat" where
  "calculateKeywordRelevanceScore matchedKeywords queryKeywords =
     (if matchedKeywords = [] then 0
      else
        (let intersection =
               filter (\<lambda>qk. list_ex (\<lambda>mk. includes_str (toLowerCase mk) (toLowerCase qk))
                              matchedKeywords)
                 queryKeywords
         in of_nat (length intersection) / of_nat (length queryKeywords)))"

text \<open>
  \<open>findSimilarChunks\<close>: chunks joined with their video, kept when the embedding is not
  null, the channel (if given) matches and the similarity exceeds the threshold, ordered by
  cosine distance, cut at the limit. Rows of equal distance keep their table order (SQL
  leaves their order open).
\<close>

definition findSimilarChunks ::
  "env \<Rightarrow> db \<Rightarrow> embedding \<Rightarrow> uuid option \<Rightarrow> int \<Rightarrow> rat
     \<Rightarrow> error + (TranscriptChunk \<times> rat) list" where
  "findSimilarChunks e d queryEmbedding channelDbId limit threshold =
     (if vector_fails e \<or> (negative_limit_rejected e \<and> limit < 0) then Inl DbError
      else Inr (sql_limit limit (sort_key (\<lambda>(chunk, similarity). 1 - similarity)
        (concat (map (\<lambda>chunk. concat (map (\<lambda>video.
            if c_videoId chunk = v_id video then
              (case c_embedding chunk of
                 None \<Rightarrow> []
               | Some emb \<Rightarrow>
                   (let similarity = cosine_similarity e emb queryEmbedding
                    in if (case channelDbId of None \<Rightarrow> True
                             | Some i \<Rightarrow> v_channelId video = i)
                          \<and> similarity > threshold
                       then [(chunk, similarity)] else []))
            else [])
          (youtubeVideo d))) (transcriptChunk d))))))"

definition findMatchingKeywords :: "env \<Rightarrow> db \<Rightarrow> uuid \<Rightarrow> string \<Rightarrow> string list" where
  "findMatchingKeywords e d chunkId query =
     (let queryKeywords = extractKeywordsFromQuery query
      in if queryKeywords = [] then []
         else map k_keyword (filter (\<lambda>k.
                if or_list_parenthesised e then
                  k_chunkId k = Some chunkId
                  \<and> list_ex (\<lambda>keyword. keywordCondition keyword k) queryKeywords
                else
                  and_or_list (k_chunkId k = Some chunkId)
                    (map (\<lambda>keyword. keywordCondition keyword k) queryKeywords))
              (videoKeyword d)))"

fun chunkMap_add ::
  "(uuid \<times> TranscriptChunk \<times> string list) list \<Rightarrow> TranscriptChunk \<Rightarrow> string
     \<Rightarrow> (uuid \<times> TranscriptChunk \<times> string list) list" where
  \<comment> \<open>one iteration of the grouping loop over a \<open>Map\<close> in insertion order\<close>
  "chunkMap_add [] chunk kw = [(c_id chunk, chunk, [kw])]"
| "chunkMap_add ((i, data, kws) # m) chunk kw =
     (if i = c_id chunk then (i, data, kws @ [kw]) # m
      else (i, data, kws) # chunkMap_add m chunk kw)"

definition keywordRows ::
  "env \<Rightarrow> db \<Rightarrow> string list \<Rightarrow> uuid option \<Rightarrow> int \<Rightarrow> (TranscriptChunk \<times> string) list" where
  \<comment> \<open>the joined query of \<open>keywordSearch\<close>: rows \<open>(chunk, keyword)\<close>\<close>
  "keywordRows e d queryKeywords channelDbId limit =
     map (\<lambda>(k, chunk). (chunk, k_keyword k))
       (sql_limit limit (sort_key (\<lambda>(k, chunk). - k_confidence k)
         (concat (map (\<lambda>k. concat (map (\<lambda>chunk. concat (map (\<lambda>video.
             if k_chunkId k = Some (c_id chunk) \<and> c_videoId chunk = v_id video
                \<and> (case channelDbId of
                      None \<Rightarrow> list_ex (\<lambda>keyword. keywordCondition keyword k) queryKeywords
                    | Some i \<Rightarrow>
                        if or_list_parenthesised e then
                          list_ex (\<lambda>keyword. keywordCondition keyword k) queryKeywords
                          \<and> v_channelId video = i
                        else
                          or_list_and (map (\<lambda>keyword. keywordCondition keyword k) queryKeywords)
                            (v_channelId video = i))
             then [(k, chunk)] else [])
           (youtubeVideo d))) (transcriptChunk d))) (videoKeyword d)))))"

fun keywordResults ::
  "env \<Rightarrow> db \<Rightarrow> string list \<Rightarrow> (uuid \<times> TranscriptChunk \<times> string list) list
     \<Rightarrow> error + SearchResult list" where
  \<comment> \<open>the loop over \<open>chunkMap\<close>; a rejected lookup throws out of \<open>keywordSearch\<close>\<close>
  "keywordResults e d queryKeywords [] = Inr []"
| "keywordResults e d queryKeywords ((i, chunk, kws) # rest) =
     (if kw_video_fails e i then Inl DbError
      else (case getVideoById d (c_videoId chunk) of
        None \<Rightarrow> keywordResults e d queryKeywords rest
      | Some video \<Rightarrow>
          (if kw_channel_fails e i then Inl DbError
           else (case getChannelById d (v_channelId video) of
             None \<Rightarrow> keywordResults e d queryKeywords rest
           | Some (name, url) \<Rightarrow>
               (case keywordResults e d queryKeywords rest of
                  Inl err \<Rightarrow> Inl err
                | Inr rs \<Rightarrow> Inr (\<lparr> r_chunk = chunk, r_video = video,
                      r_channelName = name, r_channelUrl = url,
                      r_relevanceScore = calculateKeywordRelevanceScore kws queryKeywords,
                      r_matchedKeywords = kws,
                      r_startTime = c_startTime chunk, r_endTime = c_endTime chunk \<rparr>
                    # rs))))))"

definition keywordSearchResolved ::
  "env \<Rightarrow> db \<Rightarrow> string \<Rightarrow> SearchOptions \<Rightarrow> uuid option \<Rightarrow> error + SearchResult list" where
  \<comment> \<open>\<open>keywordSearch\<close> after the channel handle is resolved\<close>
  "keywordSearchResolved e d query options channelDbId =
     (let limit = (case o_limit options of None \<Rightarrow> 10 | Some l \<Rightarrow> l);
          queryKeywords = extractKeywordsFromQuery query
      in if queryKeywords = [] then Inr []
         else if kw_query_fails e \<or> (negative_limit_rejected e \<and> limit * 2 < 0)
         then Inl DbError
         else
           (let results = keywordRows e d queryKeywords channelDbId (limit * 2);
                chunkMap = foldl (\<lambda>m (chunk, kw). chunkMap_add m chunk kw) [] results
            in case keywordResults e d queryKeywords chunkMap of
                 Inl err \<Rightarrow> Inl err
               | Inr searchResults \<Rightarrow>
                   Inr (slice0 limit (sort_key (\<lambda>r. - r_relevanceScore r) searchResults))))"

definition keywordSearch ::
  "env \<Rightarrow> db \<Rightarrow> string \<Rightarrow> SearchOptions \<Rightarrow> error + SearchResult list" where
  "keywordSearch e d query options =
     (case truthy (o_channelId options) of
        Some handle \<Rightarrow>
          (if kw_resolve_fails e then Inl DbError
           else (case getChannelDbIdByHandle d handle of
              None \<Rightarrow> Inr []
            | Some dbId \<Rightarrow> keywordSearchResolved e d query options (Some dbId)))
      | None \<Rightarrow> keywordSearchResolved e d query options None)"

definition keywordFallback :: "env \<Rightarrow> db \<Rightarrow> string \<Rightarrow> SearchOptions \<Rightarrow> SearchResult list" where
  \<comment> \<open>what \<open>search\<close> returns from its fallback: the keyword results, or none if
     \<open>keywordSearch\<close> throws\<close>
  "keywordFallback e d query options =
     (case keywordSearch e d query options of Inl err \<Rightarrow> [] | Inr rs \<Rightarrow> rs)"

fun vectorResults ::
  "env \<Rightarrow> db \<Rightarrow> string \<Rightarrow> bool \<Rightarrow> (TranscriptChunk \<times> rat) list \<Rightarrow> SearchResult list" where
  \<comment> \<open>the loop over \<open>chunkSimilarities\<close>; an exception skips the chunk\<close>
  "vectorResults e d query inclKw [] = []"
| "vectorResults e d query inclKw ((chunk, similarity) # rest) =
     (if video_fails e (c_id chunk) then vectorResults e d query inclKw rest
      else (case getVideoById d (c_videoId chunk) of
        None \<Rightarrow> vectorResults e d query inclKw rest
      | Some video \<Rightarrow>
          (if channel_fails e (c_id chunk) then vectorResults e d query inclKw rest
           else (case getChannelById d (v_channelId video) of
             None \<Rightarrow> vectorResults e d query inclKw rest
           | Some (name, url) \<Rightarrow>
               (if inclKw \<and> match_fails e (c_id chunk)
                then vectorResults e d query inclKw rest
                else
                  (let matchedKeywords =
                         (if inclKw then findMatchingKeywords e d (c_id chunk) query else [])
                   in \<lparr> r_chunk = chunk, r_video = video,
                        r_channelName = name, r_channelUrl = url,
                        r_relevanceScore =
                          calculateRelevanceScore chunk query matchedKeywords similarity,
                        r_matchedKeywords = matchedKeywords,
                        r_startTime = c_startTime chunk, r_endTime = c_endTime chunk \<rparr>
                      # vectorResults e d query inclKw rest))))))"

definition logSearchQuery :: "env \<Rightarrow> db \<Rightarrow> string \<Rightarrow> embedding \<Rightarrow> uuid option \<Rightarrow> db" where
  \<comment> \<open>the insert is attempted only with a channel; its rejection is caught and logged\<close>
  "logSearchQuery e d query queryEmbedding channelDbId =
     (case channelDbId of
        None \<Rightarrow> d
      | Some i \<Rightarrow>
          if log_fails e then d
          else d\<lparr> searchQuery := searchQuery d
                 @ [\<lparr> q_channelId = i, q_query = query, q_queryEmbedding = queryEmbedding,
                      q_resultsCount = 0, q_executionTime = 0 \<rparr>] \<rparr>)"

text \<open>
  \<open>search\<close> returns its result (\<open>Inl\<close>: the exception its caller sees) and the database
  after the call. \<open>searchResolved\<close> is \<open>search\<close> from the logging step on, once the query
  is embedded and the channel handle resolved.
\<close>

definition searchResolved ::
  "env \<Rightarrow> db \<Rightarrow> string \<Rightarrow> SearchOptions \<Rightarrow> embedding \<Rightarrow> uuid option
     \<Rightarrow> (error + SearchResult list) \<times> db" where
  "searchResolved e d query options queryEmbedding channelDbId =
     (let limit = (case o_limit options of None \<Rightarrow> 10 | Some l \<Rightarrow> l);
          threshold = (case o_similarityThreshold options of None \<Rightarrow> 1 / 2 | Some t \<Rightarrow> t);
          inclKw = (case o_includeKeywords options of None \<Rightarrow> True | Some b \<Rightarrow> b);
          d' = logSearchQuery e d query queryEmbedding channelDbId;
          chunkSimilarities =
            (case findSimilarChunks e d' queryEmbedding channelDbId (limit * 2) threshold of
               Inl err \<Rightarrow> [] | Inr found \<Rightarrow> found)
      in if chunkSimilarities = [] then
           (case keywordSearch e d' query options of
              Inl err \<Rightarrow> (Inr [], d')
            | Inr rs \<Rightarrow> (Inr rs, d'))
         else
           (Inr (slice0 limit (sort_key (\<lambda>r. - r_relevanceScore r)
                   (vectorResults e d' query inclKw chunkSimilarities))), d'))"

definition search ::
  "env \<Rightarrow> db \<Rightarrow> string \<Rightarrow> SearchOptions \<Rightarrow> (error + SearchResult list) \<times> db" where
  "search e d query options =
     (case embed_result e query of
        Inl err \<Rightarrow> (Inl err, d)
      | Inr queryEmbedding \<Rightarrow>
          (case truthy (o_channelId options) of
             Some handle \<Rightarrow>
               (if resolve_fails e then (Inl DbError, d)
                else (case getChannelDbIdByHandle d handle of
                   None \<Rightarrow> (Inr [], d)
                 | Some dbId \<Rightarrow> searchResolved e d query options queryEmbedding (Some dbId)))
           | None \<Rightarrow> searchResolved e d query options queryEmbedding None))"

section \<open>Keyword extraction (extract-keywords.ts)\<close>

record Keyword =
  kw_word :: string
  kw_entity :: string
  kw_score :: rat








section \<open>YouTubeChannelIndexer\<close>

definition CHUNK_SIZE :: nat where "CHUNK_SIZE = 400"
definition CHUNK_OVERLAP :: nat where "CHUNK_OVERLAP = 50"

definition CHANNEL_URL_PATTERNS :: "string list" where
  \<comment> \<open>the literal part of each pattern; every pattern continues with \<open>([a-zA-Z0-9_-]+)\<close>\<close>
  "CHANNEL_URL_PATTERNS =
     [''youtube.com/@'', ''youtube.com/c/'', ''youtube.com/channel/'', ''youtube.com/user/'']"

record SourceVideo =
  sv_videoId :: string
  sv_title :: string

text \<open>
  What lies outside the indexer: the named-entity model, the embedding request, the video
  listing, the effect of a batch of concurrently processed videos on the database (the
  exceptions of a video are caught inside its batch), whether a database statement of
  \<open>indexChannel\<close> or \<open>processChunk\<close> rejects (for \<open>updateIndexStatus\<close>, by the number of the
  call within the run), and the message of an exception.
\<close>

record ienv =
  ix_ner :: "string \<Rightarrow> error + Keyword list"
  ix_embed :: "string \<Rightarrow> error + embedding"
  ix_insert_keywords_fails :: bool
  ix_update_embedding_fails :: bool
  ix_channel_record_fails :: bool
  ix_status_insert_fails :: bool
  ix_fetch_result :: "error + SourceVideo list"
  ix_processBatch :: "uuid \<Rightarrow> SourceVideo list \<Rightarrow> db \<Rightarrow> db"
  ix_update_fails :: "nat \<Rightarrow> bool"
  ix_mark_fails :: bool
  ix_error_message :: "error \<Rightarrow> string"

subsection \<open>Segmentation\<close>

definition isSentenceEnd :: "char \<Rightarrow> bool" where
  \<comment> \<open>the class of \<open>SENTENCE_SPLIT_REGEX = /[.!?]+/\<close>\<close>
  "isSentenceEnd c = (c = CHR ''.'' \<or> c = CHR ''!'' \<or> c = CHR ''?'')"

definition splitIntoSentences :: "string \<Rightarrow> string list" where
  "splitIntoSentences text =
     filter (\<lambda>s. length s > 0) (map trim (split_plus isSentenceEnd [] text))"

definition estimateTokenCount :: "string \<Rightarrow> nat" where
  \<comment> \<open>\<open>Math.ceil(text.length / 4)\<close>\<close>
  "estimateTokenCount text = nat \<lceil>(of_nat (length text) :: rat) / 4\<rceil>"

definition getOverlapText :: "string \<Rightarrow> nat \<Rightarrow> string" where
  "getOverlapText text overlapTokens =
     (let words = split_char CHR '' '' [] text;
          overlapWords = overlapTokens div 4
      in join '' '' (slice_last overlapWords words))"

definition insertTranscriptChunk ::
  "db \<Rightarrow> uuid \<Rightarrow> nat \<Rightarrow> string \<Rightarrow> nat \<Rightarrow> nat \<Rightarrow> TranscriptChunk \<times> db" where
  \<comment> \<open>\<open>insert(transcriptChunk).values(...).returning()\<close>; the end time is
     \<open>startTime + Math.floor((currentTokens / 4) * 60)\<close>\<close>
  "insertTranscriptChunk d videoDbId chunkIndex currentChunk startTime currentTokens =
     (let chunk = \<lparr> c_id = nextId d, c_videoId = videoDbId, c_chunkIndex = chunkIndex,
                     c_content = trim currentChunk, c_startTime = startTime,
                     c_endTime = startTime + nat \<lfloor>((of_nat currentTokens :: rat) / 4) * 60\<rfloor>,
                     c_tokenCount = currentTokens, c_embedding = None \<rparr>
      in (chunk, d\<lparr> transcriptChunk := transcriptChunk d @ [chunk], nextId := Suc (nextId d) \<rparr>))"

record segmenter =
  sg_chunks :: "TranscriptChunk list"
  sg_currentChunk :: string
  sg_currentTokens :: nat
  sg_chunkIndex :: nat
  sg_startTime :: nat
  sg_db :: db

fun chunkLoop :: "uuid \<Rightarrow> string list \<Rightarrow> segmenter \<Rightarrow> segmenter" where
  \<comment> \<open>the loop \<open>for (const sentence of sentences)\<close>\<close>
  "chunkLoop videoDbId [] st = st"
| "chunkLoop videoDbId (sentence # rest) st =
     (let sentenceTokens = estimateTokenCount sentence
      in if sg_currentTokens st + sentenceTokens > CHUNK_SIZE \<and> sg_currentChunk st \<noteq> [] then
           (let (chunk, d') = insertTranscriptChunk (sg_db st) videoDbId (sg_chunkIndex st)
                                (sg_currentChunk st) (sg_startTime st) (sg_currentTokens st);
                overlapText = getOverlapText (sg_currentChunk st) CHUNK_OVERLAP;
                currentChunk = overlapText @ '' '' @ sentence
            in chunkLoop videoDbId rest
                 \<lparr> sg_chunks = sg_chunks st @ [chunk], sg_currentChunk = currentChunk,
                   sg_currentTokens = estimateTokenCount currentChunk,
                   sg_chunkIndex = sg_chunkIndex st + 1, sg_startTime = c_endTime chunk,
                   sg_db = d' \<rparr>)
         else
           chunkLoop videoDbId rest
             (st\<lparr> sg_currentChunk :=
                     sg_currentChunk st @ (if sg_currentChunk st \<noteq> [] then '' '' else [])
                       @ sentence,
                  sg_currentTokens := sg_currentTokens st + sentenceTokens \<rparr>))"

text \<open>
  \<open>createTranscriptChunks\<close> returns the chunks and the database after the inserts; the
  inserts are taken to execute.
\<close>

definition createTranscriptChunks :: "uuid \<Rightarrow> string \<Rightarrow> db \<Rightarrow> TranscriptChunk list \<times> db" where
  "createTranscriptChunks videoDbId transcript d =
     (let sentences = splitIntoSentences transcript;
          st = chunkLoop videoDbId sentences
                 \<lparr> sg_chunks = [], sg_currentChunk = [], sg_currentTokens = 0,
                   sg_chunkIndex = 0, sg_startTime = 0, sg_db = d \<rparr>
      in if sg_currentChunk st \<noteq> [] then
           (let (chunk, d') = insertTranscriptChunk (sg_db st) videoDbId (sg_chunkIndex st)
                                (sg_currentChunk st) (sg_startTime st) (sg_currentTokens st)
            in (sg_chunks st @ [chunk], d'))
         else (sg_chunks st, sg_db st))"

subsection \<open>Chunk processing\<close>




subsection \<open>Channel and video upserts\<close>

definition isIdChar :: "char \<Rightarrow> bool" where
  \<comment> \<open>the class \<open>[a-zA-Z0-9_-]\<close>\<close>
  "isIdChar c =
     (let n = (of_char c :: nat)
      in (97 \<le> n \<and> n \<le> 122) \<or> (65 \<le> n \<and> n \<le> 90) \<or> (48 \<le> n \<and> n \<le> 57)
         \<or> n = 95 \<or> n = 45)"

fun matchPattern :: "string \<Rightarrow> string \<Rightarrow> string option" where
  \<comment> \<open>\<open>url.match(pattern)[1]\<close>: the leftmost place where the literal part is followed by
     at least one character of the class, and the longest run of the class there\<close>
  "matchPattern literal [] = None"
| "matchPattern literal (c # cs) =
     (if startsWith (c # cs) literal
         \<and> takeWhile isIdChar (drop (length literal) (c # cs)) \<noteq> []
      then Some (takeWhile isIdChar (drop (length literal) (c # cs)))
      else matchPattern literal cs)"

fun firstMatch :: "string list \<Rightarrow> string \<Rightarrow> string option" where
  "firstMatch [] url = None"
| "firstMatch (pattern # patterns) url =
     (case matchPattern pattern url of
        Some m \<Rightarrow> Some m
      | None \<Rightarrow> firstMatch patterns url)"

definition extractChannelIdFromUrl :: "string \<Rightarrow> error + string" where
  "extractChannelIdFromUrl url =
     (case firstMatch CHANNEL_URL_PATTERNS url of
        Some m \<Rightarrow> Inr m
      | None \<Rightarrow> Inl InvalidChannelUrl)"

text \<open>
  \<open>createChannelRecord\<close> at clock reading \<open>now\<close>; its database statements are taken to
  execute. The update returns the first updated row.
\<close>

definition createChannelRecord ::
  "db \<Rightarrow> timestamp \<Rightarrow> string \<Rightarrow> string \<Rightarrow> error + (YouTubeChannel \<times> db)" where
  "createChannelRecord d now channelUrl channelName =
     (case extractChannelIdFromUrl channelUrl of
        Inl err \<Rightarrow> Inl err
      | Inr channelId \<Rightarrow>
          (let existingChannel =
                 take 1 (filter (\<lambda>c. ch_channelId c = channelId) (youtubeChannel d))
           in if length existingChannel > 0 then
                (let updated =
                       map (\<lambda>c. if ch_channelId c = channelId
                                 then c\<lparr> ch_channelName := channelName,
                                         ch_channelUrl := channelUrl,
                                         ch_updatedAt := now \<rparr>
                                 else c)
                         (youtubeChannel d)
                 in case filter (\<lambda>c. ch_channelId c = channelId) updated of
                      updatedChannel # _ \<Rightarrow>
                        Inr (updatedChannel, d\<lparr> youtubeChannel := updated \<rparr>)
                    | [] \<Rightarrow> Inl DbError)
              else
                (let newChannel =
                       \<lparr> ch_id = nextId d, ch_channelId = channelId,
                         ch_channelName = channelName, ch_channelUrl = channelUrl,
                         ch_createdAt = now, ch_updatedAt = now, ch_isIndexed = False,
                         ch_lastIndexedAt = None \<rparr>
                 in Inr (newChannel,
                      d\<lparr> youtubeChannel := youtubeChannel d @ [newChannel],
                         nextId := Suc (nextId d) \<rparr>))))"

record VideoValues =
  vv_channelId :: uuid
  vv_videoId :: string
  vv_title :: string
  vv_description :: string
  vv_publishedAt :: timestamp
  vv_duration :: int
  vv_viewCount :: int
  vv_likeCount :: int
  vv_transcript :: string

text \<open>
  The statement \<open>insert(youtubeVideo).values(...).onConflictDoUpdate({target: videoId,
  set: ...}).returning()\<close> of \<open>processVideoWithYtdlp\<close>, at clock reading \<open>now\<close>: a row with
  the same \<open>videoId\<close> is updated with the columns of \<open>set\<close> (all but \<open>channelId\<close> and
  \<open>videoId\<close>, and \<open>updatedAt\<close>), otherwise the row of \<open>values\<close> is inserted.
\<close>

definition videoInsertRow :: "uuid \<Rightarrow> timestamp \<Rightarrow> VideoValues \<Rightarrow> YouTubeVideo" where
  \<comment> \<open>the row of \<open>values\<close>, with the defaults of \<open>id\<close>, \<open>createdAt\<close> and \<open>updatedAt\<close>\<close>
  "videoInsertRow newId now vals =
     \<lparr> v_id = newId, v_videoId = vv_videoId vals,
       v_channelId = vv_channelId vals, v_title = vv_title vals,
       v_description = vv_description vals,
       v_publishedAt = vv_publishedAt vals, v_duration = vv_duration vals,
       v_viewCount = vv_viewCount vals, v_likeCount = vv_likeCount vals,
       v_thumbnailUrl = ''https://img.youtube.com/vi/'' @ vv_videoId vals @ ''/hqdefault.jpg'',
       v_videoUrl = ''https://www.youtube.com/watch?v='' @ vv_videoId vals,
       v_transcript = vv_transcript vals,
       v_transcriptLength = length (vv_transcript vals),
       v_isTranscriptAvailable = True, v_createdAt = now, v_updatedAt = now \<rparr>"

definition videoConflictSet :: "timestamp \<Rightarrow> VideoValues \<Rightarrow> YouTubeVideo \<Rightarrow> YouTubeVideo" where
  \<comment> \<open>an existing row after the columns of \<open>set\<close> are written\<close>
  "videoConflictSet now vals v =
     v\<lparr> v_title := vv_title vals,
        v_description := vv_description vals,
        v_publishedAt := vv_publishedAt vals,
        v_duration := vv_duration vals,
        v_viewCount := vv_viewCount vals,
        v_likeCount := vv_likeCount vals,
        v_thumbnailUrl := ''https://img.youtube.com/vi/'' @ vv_videoId vals @ ''/hqdefault.jpg'',
        v_videoUrl := ''https://www.youtube.com/watch?v='' @ vv_videoId vals,
        v_isTranscriptAvailable := True,
        v_transcript := vv_transcript vals,
        v_transcriptLength := length (vv_transcript vals),
        v_updatedAt := now \<rparr>"

definition upsertVideo :: "db \<Rightarrow> timestamp \<Rightarrow> VideoValues \<Rightarrow> error + (YouTubeVideo \<times> db)" where
  "upsertVideo d now vals =
     (if list_ex (\<lambda>v. v_videoId v = vv_videoId vals) (youtubeVideo d) then
        (let updated =
               map (\<lambda>v. if v_videoId v = vv_videoId vals then videoConflictSet now vals v else v)
                 (youtubeVideo d)
         in case filter (\<lambda>v. v_videoId v = vv_videoId vals) updated of
              videoRecord # _ \<Rightarrow> Inr (videoRecord, d\<lparr> youtubeVideo := updated \<rparr>)
            | [] \<Rightarrow> Inl DbError)
      else
        (let videoRecord = videoInsertRow (nextId d) now vals
         in Inr (videoRecord,
              d\<lparr> youtubeVideo := youtubeVideo d @ [videoRecord],
                 nextId := Suc (nextId d) \<rparr>)))"

subsection \<open>The indexing run\<close>

definition BATCH_SIZE :: nat where "BATCH_SIZE = 3"

record IndexStatusUpdate =
  u_status :: string
  u_progress :: int
  u_totalVideos :: nat
  u_processedVideos :: nat
  u_errorMessage :: "string option"

text \<open>
  The indexer object during a run: the database, the field \<open>this.channelDbId\<close>, the number
  of \<open>updateIndexStatus\<close> statements sent so far, and the progress values the executed
  statements have written to the status row, oldest first.
\<close>

record indexer =
  ixr_db :: db
  ixr_channelDbId :: "uuid option"
  ixr_calls :: nat
  ixr_writes :: "int list"

definition buildUpdateData ::
  "timestamp \<Rightarrow> IndexStatusUpdate \<Rightarrow> ChannelIndexStatus \<Rightarrow> ChannelIndexStatus" where
  \<comment> \<open>a status row after \<open>.set(updateData)\<close>\<close>
  "buildUpdateData now update row =
     row\<lparr> s_status := u_status update,
          s_progress := u_progress update,
          s_totalVideos := u_totalVideos update,
          s_processedVideos := u_processedVideos update,
          s_errorMessage := (case truthy (u_errorMessage update) of
                               Some m \<Rightarrow> Some m | None \<Rightarrow> s_errorMessage row),
          s_completedAt := (if u_status update = ''completed'' then Some now
                            else s_completedAt row) \<rparr>"

definition updateIndexStatus ::
  "ienv \<Rightarrow> timestamp \<Rightarrow> IndexStatusUpdate \<Rightarrow> indexer \<Rightarrow> error option \<times> indexer" where
  "updateIndexStatus e now update st =
     (case ixr_channelDbId st of
        None \<Rightarrow> (Some ChannelIdNotSet, st)
      | Some cid \<Rightarrow>
          if ix_update_fails e (ixr_calls st)
          then (Some DbError, st\<lparr> ixr_calls := Suc (ixr_calls st) \<rparr>)
          else (None,
            st\<lparr> ixr_db := (ixr_db st)\<lparr> channelIndexStatus :=
                     map (\<lambda>row. if s_channelId row = cid
                                 then buildUpdateData now update row else row)
                       (channelIndexStatus (ixr_db st)) \<rparr>,
                ixr_calls := Suc (ixr_calls st),
                ixr_writes := ixr_writes st @ [u_progress update] \<rparr>))"

definition createIndexStatusRecord :: "db \<Rightarrow> uuid \<Rightarrow> db" where
  "createIndexStatusRecord d channelDbId =
     d\<lparr> channelIndexStatus := channelIndexStatus d
          @ [\<lparr> s_channelId = channelDbId, s_status = ''pending'', s_progress = 0,
               s_totalVideos = 0, s_processedVideos = 0, s_errorMessage = None,
               s_completedAt = None \<rparr>] \<rparr>"

definition markChannelAsIndexed :: "db \<Rightarrow> timestamp \<Rightarrow> uuid \<Rightarrow> db" where
  "markChannelAsIndexed d now channelDbId =
     d\<lparr> youtubeChannel :=
          map (\<lambda>c. if ch_id c = channelDbId
                    then c\<lparr> ch_isIndexed := True, ch_lastIndexedAt := Some now,
                            ch_updatedAt := now \<rparr>
                    else c)
            (youtubeChannel d) \<rparr>"

function batchLoop ::
  "ienv \<Rightarrow> timestamp \<Rightarrow> SourceVideo list \<Rightarrow> nat \<Rightarrow> nat \<Rightarrow> indexer \<Rightarrow> error option \<times> indexer" where
  \<comment> \<open>the loop \<open>for (let i = 0; i < videos.length; i += BATCH_SIZE)\<close>\<close>
  "batchLoop e now videos i processedCount st =
     (if i < length videos then
        (let batch = take BATCH_SIZE (drop i videos)
         in case ixr_channelDbId st of
              None \<Rightarrow> (Some ChannelIdNotSet, st)
            | Some channelDbId \<Rightarrow>
                (let st1 = st\<lparr> ixr_db := ix_processBatch e channelDbId batch (ixr_db st) \<rparr>;
                     processedCount' = processedCount + length batch;
                     progress = round (20 + ((of_nat processedCount' :: rat)
                                               / of_nat (length videos)) * 30)
                 in case updateIndexStatus e now
                           \<lparr> u_status = ''indexing_videos'', u_progress = progress,
                             u_totalVideos = length videos,
                             u_processedVideos = processedCount',
                             u_errorMessage = None \<rparr> st1 of
                      (Some err, st2) \<Rightarrow> (Some err, st2)
                    | (None, st2) \<Rightarrow>
                        batchLoop e now videos (i + BATCH_SIZE) processedCount' st2))
      else (None, st))"
  by pat_completeness auto
termination
  by (relation "measure (\<lambda>(e, now, videos, i, processedCount, st). length videos - i)")
     (auto simp: BATCH_SIZE_def)

declare batchLoop.simps [simp del]

text \<open>
  The body of the \<open>try\<close> block of \<open>indexChannel\<close>, in two parts: \<open>indexChannel_videos\<close>
  is the block from the first status update to the last one, for the listed videos;
  \<open>indexChannel_try\<close> is the whole body.
\<close>

definition indexChannel_videos ::
  "ienv \<Rightarrow> timestamp \<Rightarrow> YouTubeChannel \<Rightarrow> SourceVideo list \<Rightarrow> indexer
     \<Rightarrow> error option \<times> indexer" where
  "indexChannel_videos e now channel videos st =
     (case updateIndexStatus e now
             \<lparr> u_status = ''indexing_videos'', u_progress = 10,
               u_totalVideos = length videos, u_processedVideos = 0,
               u_errorMessage = None \<rparr> st of
        (Some err, st3) \<Rightarrow> (Some err, st3)
      | (None, st3) \<Rightarrow>
          (case batchLoop e now videos 0 0 st3 of
             (Some err, st4) \<Rightarrow> (Some err, st4)
           | (None, st4) \<Rightarrow>
               if ix_mark_fails e then (Some DbError, st4)
               else updateIndexStatus e now
                      \<lparr> u_status = ''completed'', u_progress = 100,
                        u_totalVideos = length videos,
                        u_processedVideos = length videos,
                        u_errorMessage = None \<rparr>
                      (st4\<lparr> ixr_db := markChannelAsIndexed (ixr_db st4)
                                         now (ch_id channel) \<rparr>)))"

definition indexChannel_try ::
  "ienv \<Rightarrow> timestamp \<Rightarrow> string \<Rightarrow> string \<Rightarrow> int option \<Rightarrow> indexer
     \<Rightarrow> error option \<times> indexer" where
  "indexChannel_try e now channelUrl channelName maxVideos st =
     (if ix_channel_record_fails e then (Some DbError, st)
      else (case createChannelRecord (ixr_db st) now channelUrl channelName of
        Inl err \<Rightarrow> (Some err, st)
      | Inr (channel, d1) \<Rightarrow>
          (let st1 = st\<lparr> ixr_db := d1, ixr_channelDbId := Some (ch_id channel) \<rparr>
           in if ix_status_insert_fails e then (Some DbError, st1)
              else
                (let st2 = st1\<lparr> ixr_db := createIndexStatusRecord d1 (ch_id channel) \<rparr>
                 in case ix_fetch_result e of
                      Inl err \<Rightarrow> (Some err, st2)
                    | Inr allVideos \<Rightarrow>
                        (let videos = (case maxVideos of
                                         None \<Rightarrow> allVideos
                                       | Some m \<Rightarrow> if m = 0 then allVideos
                                                   else slice0 m allVideos)
                         in indexChannel_videos e now channel videos st2)))))"

text \<open>
  \<open>indexChannel\<close>: the \<open>try\<close> block and the \<open>catch\<close> handler, which writes the failure
  status and rethrows; an exception of the handler's own update replaces the first one.
\<close>

definition indexChannel ::
  "ienv \<Rightarrow> timestamp \<Rightarrow> string \<Rightarrow> string \<Rightarrow> int option \<Rightarrow> indexer
     \<Rightarrow> error option \<times> indexer" where
  "indexChannel e now channelUrl channelName maxVideos st =
     (case indexChannel_try e now channelUrl channelName maxVideos st of
        (None, st') \<Rightarrow> (None, st')
      | (Some err, st') \<Rightarrow>
          (case updateIndexStatus e now
                  \<lparr> u_status = ''failed'', u_progress = 0, u_totalVideos = 0,
                    u_processedVideos = 0,
                    u_errorMessage = Some (ix_error_message e err) \<rparr> st' of
             (Some err', st'') \<Rightarrow> (Some err', st'')
           | (None, st'') \<Rightarrow> (Some err, st'')))"

section \<open>Invariants used in the proofs\<close>

text \<open>
  An entry of the grouping map of \<open>keywordSearch\<close> is well-formed with respect to the
  keyword rows \<open>ks\<close>: it is keyed by its chunk, it holds at least one keyword, and each of
  its keywords is the text of a row attached to that chunk.
\<close>

definition entry_ok :: "VideoKeyword list \<Rightarrow> uuid \<times> TranscriptChunk \<times> string list \<Rightarrow> bool" where
  "entry_ok ks entry =
     (case entry of (i, chunk, kws) \<Rightarrow>
        i = c_id chunk \<and> kws \<noteq> []
        \<and> (\<forall>kw\<in>set kws. \<exists>k\<in>set ks. k_chunkId k = Some i \<and> k_keyword k = kw))"

text \<open>
  A chunk list is contiguous from \<open>s\<close> to \<open>e\<close>: the first chunk starts at \<open>s\<close>, every chunk
  starts where its predecessor ends and does not end before it starts, and the last chunk
  ends at \<open>e\<close>.
\<close>

fun contiguous :: "nat \<Rightarrow> TranscriptChunk list \<Rightarrow> nat \<Rightarrow> bool" where
  "contiguous s [] e = (s = e)"
| "contiguous s (c # cs) e =
     (c_startTime c = s \<and> c_startTime c \<le> c_endTime c \<and> contiguous (c_endTime c) cs e)"

section \<open>Concrete inputs\<close>

definition env_ok :: env where
  \<comment> \<open>every call succeeds; every stored embedding has similarity 0.9 to the query\<close>
  "env_ok = \<lparr> embed_result = (\<lambda>text. Inr [1, 0]),
      cosine_similarity = (\<lambda>a b. 9 / 10),
      resolve_fails = False, log_fails = False, vector_fails = False,
      kw_resolve_fails = False, kw_query_fails = False,
      kw_video_fails = (\<lambda>i. False), kw_channel_fails = (\<lambda>i. False),
      video_fails = (\<lambda>i. False), channel_fails = (\<lambda>i. False),
      match_fails = (\<lambda>i. False), or_list_parenthesised = True,
      negative_limit_rejected = True \<rparr>"

definition env_embed_down :: env where
  \<comment> \<open>the embedding provider rejects every request\<close>
  "env_embed_down = env_ok\<lparr> embed_result := (\<lambda>text. Inl ProviderError) \<rparr>"

definition env_vector_down :: env where
  \<comment> \<open>the vector similarity query rejects\<close>
  "env_vector_down = env_ok\<lparr> vector_fails := True \<rparr>"

definition env_dissimilar :: env where
  \<comment> \<open>every stored embedding has similarity -0.5 to the query\<close>
  "env_dissimilar = env_ok\<lparr> cosine_similarity := (\<lambda>a b. - 1 / 2) \<rparr>"

definition chunk_example :: TranscriptChunk where
  "chunk_example = \<lparr> c_id = 3, c_videoId = 2, c_chunkIndex = 0,
      c_content = ''Barack Obama spoke'', c_startTime = 0, c_endTime = 75, c_tokenCount = 5,
      c_embedding = Some [1, 0] \<rparr>"

definition video_example :: YouTubeVideo where
  "video_example = \<lparr> v_id = 2, v_videoId = ''abc'', v_channelId = 1, v_title = ''Speech'',
      v_description = [], v_publishedAt = 0, v_duration = 60, v_viewCount = 0,
      v_likeCount = 0, v_thumbnailUrl = [],
      v_videoUrl = ''https://www.youtube.com/watch?v=abc'',
      v_transcript = ''Barack Obama spoke'', v_transcriptLength = 18,
      v_isTranscriptAvailable = True, v_createdAt = 0, v_updatedAt = 0 \<rparr>"

definition db_example :: db where
  \<comment> \<open>one channel, one video, one embedded chunk with one chunk-level keyword, and one
     video-level keyword\<close>
  "db_example = \<lparr>
     youtubeChannel = [\<lparr> ch_id = 1, ch_channelId = ''news'', ch_channelName = ''News'',
        ch_channelUrl = ''https://youtube.com/@news'', ch_createdAt = 0, ch_updatedAt = 0,
        ch_isIndexed = True, ch_lastIndexedAt = Some 0 \<rparr>],
     youtubeVideo = [video_example],
     transcriptChunk = [chunk_example],
     videoKeyword = [\<lparr> k_videoId = 2, k_chunkId = Some 3, k_keyword = ''Barack Obama'',
        k_entityType = ''B-PER'', k_confidence = 95, k_frequency = 1, k_relevance = 95 \<rparr>,
        \<lparr> k_videoId = 2, k_chunkId = None, k_keyword = ''Obama'',
        k_entityType = ''B-PER'', k_confidence = 99, k_frequency = 1, k_relevance = 99 \<rparr>],
     searchQuery = [],
     channelIndexStatus = [],
     nextId = 4 \<rparr>"

definition options_default :: SearchOptions where
  "options_default = \<lparr> o_channelId = None, o_limit = None, o_similarityThreshold = None,
      o_includeKeywords = None \<rparr>"

definition options_news :: SearchOptions where
  "options_news = options_default\<lparr> o_channelId := Some ''news'' \<rparr>"

definition options_negative_threshold :: SearchOptions where
  "options_negative_threshold = options_default\<lparr> o_similarityThreshold := Some (- 1) \<rparr>"

definition result_example :: SearchResult where
  \<comment> \<open>the result for the query "obama" on \<open>db_example\<close>, on either path\<close>
  "result_example = \<lparr> r_chunk = chunk_example, r_video = video_example,
      r_channelName = ''News'', r_channelUrl = ''https://youtube.com/@news'',
      r_relevanceScore = 1, r_matchedKeywords = [''Barack Obama''],
      r_startTime = 0, r_endTime = 75 \<rparr>"

definition db_empty :: db where
  "db_empty = \<lparr> youtubeChannel = [], youtubeVideo = [], transcriptChunk = [],
      videoKeyword = [], searchQuery = [], channelIndexStatus = [], nextId = 1 \<rparr>"

definition transcript_three_sentences :: string where
  "transcript_three_sentences = ''Cats are great. Dogs are loyal. Birds can fly.''"

definition transcript_many_sentences :: string where
  \<comment> \<open>401 one-letter sentences: 802 characters\<close>
  "transcript_many_sentences = concat (replicate 401 ''a.'')"

definition ienv_ok :: ienv where
  \<comment> \<open>every call succeeds; the model tags four hits in any text, the last one with the
     double nearest to 0.585 as its score; seven videos are listed\<close>
  "ienv_ok = \<lparr>
     ix_ner = (\<lambda>t. Inr [\<lparr> kw_word = ''Obama'', kw_entity = ''B-PER'', kw_score = 95 / 100 \<rparr>,
                         \<lparr> kw_word = ''the'', kw_entity = ''O'', kw_score = 1 / 2 \<rparr>,
                         \<lparr> kw_word = ''obama'', kw_entity = ''B-PER'', kw_score = 501 / 1000 \<rparr>,
                         \<lparr> kw_word = ''Hawaii'', kw_entity = ''B-LOC'',
                           kw_score = 658651445502935 / 2 ^ 50 \<rparr>]),
     ix_embed = (\<lambda>t. Inr [1, 0]),
     ix_insert_keywords_fails = False, ix_update_embedding_fails = False,
     ix_channel_record_fails = False, ix_status_insert_fails = False,
     ix_fetch_result = Inr (replicate 7 \<lparr> sv_videoId = ''abc'', sv_title = ''Speech'' \<rparr>),
     ix_processBatch = (\<lambda>channelDbId batch d. d),
     ix_update_fails = (\<lambda>n. False), ix_mark_fails = False,
     ix_error_message = (\<lambda>err. ''error'') \<rparr>"

definition ienv_mark_down :: ienv where
  \<comment> \<open>the statement of \<open>markChannelAsIndexed\<close> rejects\<close>
  "ienv_mark_down = ienv_ok\<lparr> ix_mark_fails := True \<rparr>"

definition indexer_new :: indexer where
  "indexer_new = \<lparr> ixr_db = db_empty, ixr_channelDbId = None, ixr_calls = 0, ixr_writes = [] \<rparr>"

definition url_news :: string where
  "url_news = ''https://www.youtube.com/@news''"


definition values_abc :: VideoValues where
  "values_abc = \<lparr> vv_channelId = 1, vv_videoId = ''abc'', vv_title = ''Speech'',
      vv_description = [], vv_publishedAt = 0, vv_duration = 60, vv_viewCount = 0,
      vv_likeCount = 0, vv_transcript = ''Barack Obama spoke'' \<rparr>"

definition channel_stale :: YouTubeChannel where
  \<comment> \<open>the channel row of an earlier run, under another name and URL\<close>
  "channel_stale = \<lparr> ch_id = 1, ch_channelId = ''news'', ch_channelName = ''Old name'',
      ch_channelUrl = ''https://www.youtube.com/c/news'', ch_createdAt = 0, ch_updatedAt = 0,
      ch_isIndexed = True, ch_lastIndexedAt = Some 0 \<rparr>"

definition channel_news :: "timestamp \<Rightarrow> YouTubeChannel" where
  \<comment> \<open>that row with the name and URL of the source, as last updated at \<open>t\<close>\<close>
  "channel_news t = \<lparr> ch_id = 1, ch_channelId = ''news'', ch_channelName = ''News'',
      ch_channelUrl = url_news, ch_createdAt = 0, ch_updatedAt = t, ch_isIndexed = True,
      ch_lastIndexedAt = Some 0 \<rparr>"

definition video_abc :: "timestamp \<Rightarrow> YouTubeVideo" where
  \<comment> \<open>the video row created at time 2, as last updated at \<open>t\<close>\<close>
  "video_abc t = \<lparr> v_id = 2, v_videoId = ''abc'', v_channelId = 1, v_title = ''Speech'',
      v_description = [], v_publishedAt = 0, v_duration = 60, v_viewCount = 0,
      v_likeCount = 0, v_thumbnailUrl = ''https://img.youtube.com/vi/abc/hqdefault.jpg'',
      v_videoUrl = ''https://www.youtube.com/watch?v=abc'',
      v_transcript = ''Barack Obama spoke'', v_transcriptLength = 18,
      v_isTranscriptAvailable = True, v_createdAt = 2, v_updatedAt = t \<rparr>"

definition db_stale :: db where
  \<comment> \<open>the stale channel row and no video\<close>
  "db_stale = db_empty\<lparr> youtubeChannel := [channel_stale], nextId := 2 \<rparr>"

definition db_indexed :: "timestamp \<Rightarrow> timestamp option \<Rightarrow> db" where
  \<comment> \<open>the database with the channel row as updated at \<open>t\<close> and, if given, the video row as
     updated at \<open>t'\<close>\<close>
  "db_indexed t t' = db_empty\<lparr> youtubeChannel := [channel_news t],
      youtubeVideo := (case t' of None \<Rightarrow> [] | Some u \<Rightarrow> [video_abc u]),
      nextId := (case t' of None \<Rightarrow> 2 | Some u \<Rightarrow> 3) \<rparr>"

section \<open>Query keyword extraction\<close>

text \<open>
  C2 (as the code has it). Query-side keyword extraction applied to
  "Tell me about Barack Obama" returns exactly the list tell, about, barack, obama:
  the token "me" (length at most 2) is dropped, and "about" is kept, since it is not in
  the stop-word list of \<open>isStopWord\<close>.
\<close>

theorem extractKeywordsFromQuery_example:
  "extractKeywordsFromQuery ''Tell me about Barack Obama''
     = [''tell'', ''about'', ''barack'', ''obama'']"
  by code_simp

text \<open>
  C2 (as the specification states it) fails: the result is not the list
  tell, barack, obama.
\<close>

theorem extractKeywordsFromQuery_keeps_about:
  "extractKeywordsFromQuery ''Tell me about Barack Obama''
     \<noteq> [''tell'', ''barack'', ''obama'']"
  by code_simp

subsection \<open>The search path does not read the SearchQuery table\<close>

lemma getVideoById_searchQuery: "getVideoById (d\<lparr>searchQuery := x\<rparr>) i = getVideoById d i"
  by (simp add: getVideoById_def)

lemma getChannelById_searchQuery: "getChannelById (d\<lparr>searchQuery := x\<rparr>) i = getChannelById d i"
  by (simp add: getChannelById_def)

lemma getChannelDbIdByHandle_searchQuery:
  "getChannelDbIdByHandle (d\<lparr>searchQuery := x\<rparr>) h = getChannelDbIdByHandle d h"
  by (simp add: getChannelDbIdByHandle_def)

lemma keywordRows_searchQuery:
  "keywordRows e (d\<lparr>searchQuery := x\<rparr>) qks c n = keywordRows e d qks c n"
  by (simp add: keywordRows_def)

lemma keywordResults_searchQuery:
  "keywordResults e (d\<lparr>searchQuery := x\<rparr>) qks m = keywordResults e d qks m"
  by (induction m)
     (auto simp: getVideoById_searchQuery getChannelById_searchQuery split: option.splits sum.splits)

lemma keywordSearchResolved_searchQuery:
  "keywordSearchResolved e (d\<lparr>searchQuery := x\<rparr>) q opts c = keywordSearchResolved e d q opts c"
  by (simp add: keywordSearchResolved_def keywordRows_searchQuery keywordResults_searchQuery
        Let_def)

lemma keywordSearch_searchQuery:
  "keywordSearch e (d\<lparr>searchQuery := x\<rparr>) q opts = keywordSearch e d q opts"
  by (simp add: keywordSearch_def keywordSearchResolved_searchQuery
        getChannelDbIdByHandle_searchQuery cong: option.case_cong if_cong)

lemma findSimilarChunks_searchQuery:
  "findSimilarChunks e (d\<lparr>searchQuery := x\<rparr>) qe c n t = findSimilarChunks e d qe c n t"
  by (simp add: findSimilarChunks_def)

lemma findMatchingKeywords_searchQuery:
  "findMatchingKeywords e (d\<lparr>searchQuery := x\<rparr>) i q = findMatchingKeywords e d i q"
  by (simp add: findMatchingKeywords_def Let_def)

lemma vectorResults_searchQuery:
  "vectorResults e (d\<lparr>searchQuery := x\<rparr>) q b sims = vectorResults e d q b sims"
  by (induction sims)
     (auto simp: getVideoById_searchQuery getChannelById_searchQuery
        findMatchingKeywords_searchQuery Let_def split: option.splits)

lemma logSearchQuery_shape:
  "logSearchQuery e d q qe c = d\<lparr>searchQuery := searchQuery (logSearchQuery e d q qe c)\<rparr>"
  by (cases c) (simp_all add: logSearchQuery_def)

lemma keywordSearch_logSearchQuery:
  "keywordSearch e (logSearchQuery e' d q' qe c) q opts = keywordSearch e d q opts"
  by (subst logSearchQuery_shape) (rule keywordSearch_searchQuery)

lemma findSimilarChunks_logSearchQuery:
  "findSimilarChunks e (logSearchQuery e' d q' qe' c') qe c n t = findSimilarChunks e d qe c n t"
  by (subst logSearchQuery_shape) (rule findSimilarChunks_searchQuery)

lemma vectorResults_logSearchQuery:
  "vectorResults e (logSearchQuery e' d q' qe' c') q b sims = vectorResults e d q b sims"
  by (subst logSearchQuery_shape) (rule vectorResults_searchQuery)

text \<open>The result of \<open>searchResolved\<close>, computed on the database before the logging step.\<close>

lemma fst_searchResolved:
  "fst (searchResolved e d query options qe cid) =
     (let limit = (case o_limit options of None \<Rightarrow> 10 | Some l \<Rightarrow> l);
          threshold = (case o_similarityThreshold options of None \<Rightarrow> 1 / 2 | Some t \<Rightarrow> t);
          inclKw = (case o_includeKeywords options of None \<Rightarrow> True | Some b \<Rightarrow> b);
          chunkSimilarities =
            (case findSimilarChunks e d qe cid (limit * 2) threshold of
               Inl err \<Rightarrow> [] | Inr found \<Rightarrow> found)
      in if chunkSimilarities = [] then Inr (keywordFallback e d query options)
         else Inr (slice0 limit (sort_key (\<lambda>r. - r_relevanceScore r)
                   (vectorResults e d query inclKw chunkSimilarities))))"
  by (simp add: searchResolved_def keywordFallback_def Let_def findSimilarChunks_logSearchQuery
        keywordSearch_logSearchQuery vectorResults_logSearchQuery split: sum.splits)

subsection \<open>Fallback to keyword search\<close>

text \<open>
  C1 (as the code has it). If the query embedding is obtained, the channel handle (when one
  is given) is looked up without a database failure, and the vector similarity query
  throws, then \<open>search\<close> returns what the keyword search path returns for the same query and
  options, or the empty list if keyword search itself throws; it raises no exception. A
  failure of the embedding call itself is outside the \<open>try\<close> block and is not covered.
\<close>

theorem search_vector_failure_falls_back:
  assumes emb: "embed_result e query = Inr qe"
    and res: "truthy (o_channelId options) \<noteq> None \<longrightarrow> \<not> resolve_fails e"
    and vec: "vector_fails e"
  shows "fst (search e d query options) = Inr (keywordFallback e d query options)"
proof (cases "truthy (o_channelId options)")
  case None
  then show ?thesis
    using emb vec
    by (simp add: search_def fst_searchResolved findSimilarChunks_def)
next
  case (Some handle)
  with res have nr: "\<not> resolve_fails e" by simp
  show ?thesis
  proof (cases "getChannelDbIdByHandle d handle")
    case None
    then show ?thesis
      using emb Some nr
      by (simp add: search_def keywordFallback_def keywordSearch_def)
  next
    case (Some dbId)
    then show ?thesis
      using emb \<open>truthy (o_channelId options) = Some handle\<close> nr vec
      by (simp add: search_def fst_searchResolved findSimilarChunks_def)
  qed
qed

text \<open>
  The theorem applies: with the vector query failing on \<open>db_example\<close>, \<open>search\<close> returns the
  keyword fallback.
\<close>

theorem search_vector_failure_falls_back_witness:
  "embed_result env_vector_down ''obama'' = Inr [1, 0]
   \<and> vector_fails env_vector_down
   \<and> fst (search env_vector_down db_example ''obama'' options_default)
       = Inr (keywordFallback env_vector_down db_example ''obama'' options_default)"
proof -
  have emb: "embed_result env_vector_down ''obama'' = Inr [1, 0]"
    by (simp add: env_vector_down_def env_ok_def)
  have res: "truthy (o_channelId options_default) \<noteq> None \<longrightarrow> \<not> resolve_fails env_vector_down"
    by (simp add: env_vector_down_def env_ok_def)
  have vec: "vector_fails env_vector_down"
    by (simp add: env_vector_down_def)
  from search_vector_failure_falls_back [OF emb res vec, of db_example] emb vec
  show ?thesis by simp
qed

text \<open>
  C1 (as the specification states it) fails: when the embedding call throws, \<open>search\<close>
  raises that exception to its caller, although the keyword path would have returned a
  result for the same query and options.
\<close>

theorem search_embedding_failure_propagates:
  "embed_result env_embed_down ''obama'' = Inl ProviderError
   \<and> fst (search env_embed_down db_example ''obama'' options_default) = Inl ProviderError
   \<and> keywordFallback env_embed_down db_example ''obama'' options_default = [result_example]"
  by code_simp

subsection \<open>Query logging\<close>

lemma keywordResults_log_fails:
  "keywordResults (e\<lparr>log_fails := b\<rparr>) d qks m = keywordResults e d qks m"
  by (induction m) (auto split: option.splits sum.splits)

lemma keywordSearch_log_fails:
  "keywordSearch (e\<lparr>log_fails := b\<rparr>) d q opts = keywordSearch e d q opts"
  by (simp add: keywordSearch_def keywordSearchResolved_def keywordRows_def
        keywordResults_log_fails Let_def cong: option.case_cong if_cong)

lemma vectorResults_log_fails:
  "vectorResults (e\<lparr>log_fails := b\<rparr>) d q inc sims = vectorResults e d q inc sims"
  by (induction sims) (auto simp: findMatchingKeywords_def Let_def split: option.splits)

lemma findSimilarChunks_log_fails:
  "findSimilarChunks (e\<lparr>log_fails := b\<rparr>) d qe c n t = findSimilarChunks e d qe c n t"
  by (simp add: findSimilarChunks_def Let_def cong: option.case_cong if_cong)

lemma fst_searchResolved_log_fails:
  "fst (searchResolved (e\<lparr>log_fails := b\<rparr>) d query options qe cid)
     = fst (searchResolved e d query options qe cid)"
  unfolding fst_searchResolved keywordFallback_def keywordSearch_log_fails
    vectorResults_log_fails findSimilarChunks_log_fails
  by (rule refl)

text \<open>
  C8 (as the code has it). A failure of the logging insert never changes what \<open>search\<close>
  returns and never makes it fail. The query is logged exactly when the embedding call
  succeeded and a channel handle was given and resolved (and the insert did not fail): then
  one row is appended to SearchQuery; in every other case the table is left as it was.
\<close>

theorem search_logging_best_effort:
  "fst (search (e\<lparr>log_fails := b\<rparr>) d query options) = fst (search e d query options)
   \<and> searchQuery (snd (search e d query options)) =
       (case embed_result e query of
          Inl err \<Rightarrow> searchQuery d
        | Inr qe \<Rightarrow>
           (case truthy (o_channelId options) of
              None \<Rightarrow> searchQuery d
            | Some handle \<Rightarrow>
               (case getChannelDbIdByHandle d handle of
                  None \<Rightarrow> searchQuery d
                | Some dbId \<Rightarrow>
                    if resolve_fails e \<or> log_fails e then searchQuery d
                    else searchQuery d @ [\<lparr> q_channelId = dbId, q_query = query,
                           q_queryEmbedding = qe, q_resultsCount = 0,
                           q_executionTime = 0 \<rparr>])))"
proof
  show "fst (search (e\<lparr>log_fails := b\<rparr>) d query options) = fst (search e d query options)"
    by (simp add: search_def fst_searchResolved_log_fails split: sum.splits option.splits)
next
  show "searchQuery (snd (search e d query options)) =
       (case embed_result e query of
          Inl err \<Rightarrow> searchQuery d
        | Inr qe \<Rightarrow>
           (case truthy (o_channelId options) of
              None \<Rightarrow> searchQuery d
            | Some handle \<Rightarrow>
               (case getChannelDbIdByHandle d handle of
                  None \<Rightarrow> searchQuery d
                | Some dbId \<Rightarrow>
                    if resolve_fails e \<or> log_fails e then searchQuery d
                    else searchQuery d @ [\<lparr> q_channelId = dbId, q_query = query,
                           q_queryEmbedding = qe, q_resultsCount = 0,
                           q_executionTime = 0 \<rparr>])))"
    by (simp add: search_def searchResolved_def Let_def logSearchQuery_def
          split: sum.splits option.splits)
qed

text \<open>
  The theorem applies: a search scoped to the channel "news" appends one row, and a failing
  insert leaves the result unchanged.
\<close>

theorem search_logging_best_effort_witness:
  "fst (search (env_ok\<lparr>log_fails := True\<rparr>) db_example ''obama'' options_news)
     = fst (search env_ok db_example ''obama'' options_news)
   \<and> searchQuery (snd (search env_ok db_example ''obama'' options_news))
     = [\<lparr> q_channelId = 1, q_query = ''obama'', q_queryEmbedding = [1, 0],
          q_resultsCount = 0, q_executionTime = 0 \<rparr>]"
proof -
  have "getChannelDbIdByHandle db_example ''news'' = Some 1"
    by code_simp
  with search_logging_best_effort [where e = env_ok and b = True and d = db_example
      and query = "''obama''" and options = options_news]
  show ?thesis
    by (simp add: env_ok_def options_news_def options_default_def truthy_def db_example_def)
qed

text \<open>
  C8 (as the specification states it) fails: a search without a channel scope returns its
  result and logs nothing.
\<close>

theorem search_without_channel_logs_nothing:
  "fst (search env_ok db_example ''obama'' options_default) = Inr [result_example]
   \<and> searchQuery db_example = []
   \<and> searchQuery (snd (search env_ok db_example ''obama'' options_default)) = []"
  by code_simp

subsection \<open>Score bounds\<close>

lemma calculateRelevanceScore_le_1: "calculateRelevanceScore c q mk s \<le> 1"
  by (simp add: calculateRelevanceScore_def Let_def)

lemma calculateRelevanceScore_ge_0:
  assumes "0 \<le> s" shows "0 \<le> calculateRelevanceScore c q mk s"
proof -
  have "0 \<le> (of_nat a / of_nat b :: rat) * (5 / 100)" for a b :: nat
    by simp
  moreover have "0 \<le> (of_nat n :: rat) * (5 / 100)" for n :: nat
    by simp
  ultimately show ?thesis
    using assms by (simp add: calculateRelevanceScore_def Let_def)
qed

lemma calculateKeywordRelevanceScore_bounds:
  "0 \<le> calculateKeywordRelevanceScore m qks \<and> calculateKeywordRelevanceScore m qks \<le> 1"
proof -
  have "(of_nat (length (filter P qks)) :: rat) \<le> of_nat (length qks)" for P
    by simp
  then have "(of_nat (length (filter P qks)) :: rat) / of_nat (length qks) \<le> 1" for P
    by (simp add: divide_le_eq_1)
  then show ?thesis
    by (simp add: calculateKeywordRelevanceScore_def Let_def)
qed

lemma set_slice0: "set (slice0 n xs) \<subseteq> set xs"
  by (simp add: slice0_def set_take_subset)

lemma set_sql_limitD: "x \<in> set (sql_limit n xs) \<Longrightarrow> x \<in> set xs"
  by (cases "n < 0") (auto simp: sql_limit_def dest: in_set_takeD)

lemma findSimilarChunks_threshold:
  assumes "findSimilarChunks e d qe c n t = Inr xs" "(chunk, s) \<in> set xs"
  shows "t < s"
proof -
  from assms have "(chunk, s) \<in> set (concat (map (\<lambda>chunk. concat (map (\<lambda>video.
            if c_videoId chunk = v_id video then
              (case c_embedding chunk of
                 None \<Rightarrow> []
               | Some emb \<Rightarrow>
                   (let similarity = cosine_similarity e emb qe
                    in if (case c of None \<Rightarrow> True
                             | Some i \<Rightarrow> v_channelId video = i)
                          \<and> similarity > t
                       then [(chunk, similarity)] else []))
            else [])
          (youtubeVideo d))) (transcriptChunk d)))"
    by (auto simp: findSimilarChunks_def split: if_splits dest!: set_sql_limitD)
  then show ?thesis
    by (auto simp: Let_def split: if_splits option.splits)
qed

lemma vectorResults_scores:
  "r \<in> set (vectorResults e d q b sims) \<Longrightarrow>
     \<exists>c s mk. (c, s) \<in> set sims \<and> r_relevanceScore r = calculateRelevanceScore c q mk s"
proof (induction sims)
  case Nil
  then show ?case by simp
next
  case (Cons a sims)
  obtain c s where a: "a = (c, s)" by (cases a)
  from Cons.prems Cons.IH show ?case
    unfolding a
    by (fastforce simp: Let_def split: if_splits option.splits)
qed

lemma keywordResults_scores:
  "keywordResults e d qks m = Inr rs \<Longrightarrow> r \<in> set rs \<Longrightarrow>
     \<exists>kws. r_relevanceScore r = calculateKeywordRelevanceScore kws qks"
proof (induction m arbitrary: rs)
  case Nil
  then show ?case by simp
next
  case (Cons a m)
  obtain i c kws where a: "a = (i, c, kws)" by (cases a)
  from Cons.prems Cons.IH show ?case
    unfolding a
    by (fastforce split: if_splits option.splits sum.splits)
qed

lemma keywordSearchResolved_scores:
  assumes "keywordSearchResolved e d q opts c = Inr rs" "r \<in> set rs"
  shows "\<exists>kws qks. r_relevanceScore r = calculateKeywordRelevanceScore kws qks"
  using assms set_slice0
  by (fastforce simp: keywordSearchResolved_def Let_def
        split: if_splits sum.splits dest: keywordResults_scores)

lemma keywordFallback_scores:
  assumes "r \<in> set (keywordFallback e d q opts)"
  shows "\<exists>kws qks. r_relevanceScore r = calculateKeywordRelevanceScore kws qks"
  using assms
  by (auto simp: keywordFallback_def keywordSearch_def
        split: sum.splits option.splits if_splits dest: keywordSearchResolved_scores [OF sym])

lemma searchResolved_scores:
  assumes res: "fst (searchResolved e d query options qe cid) = Inr rs"
    and mem: "r \<in> set rs"
  shows "(\<exists>kws qks. r_relevanceScore r = calculateKeywordRelevanceScore kws qks)
      \<or> (\<exists>c s mk. (case o_similarityThreshold options of None \<Rightarrow> 1 / 2 | Some t \<Rightarrow> t) < s
            \<and> r_relevanceScore r = calculateRelevanceScore c query mk s)"
proof -
  define threshold where
    "threshold = (case o_similarityThreshold options of None \<Rightarrow> 1 / 2 | Some t \<Rightarrow> t)"
  define limit where "limit = (case o_limit options of None \<Rightarrow> 10 | Some l \<Rightarrow> l)"
  define sims where "sims = (case findSimilarChunks e d qe cid (limit * 2) threshold of
               Inl err \<Rightarrow> [] | Inr found \<Rightarrow> found)"
  show ?thesis
  proof (cases "sims = []")
    case True
    with res have "rs = keywordFallback e d query options"
      by (simp add: fst_searchResolved Let_def sims_def limit_def threshold_def)
    with mem show ?thesis using keywordFallback_scores by blast
  next
    case False
    with res have "rs = slice0 limit (sort_key (\<lambda>r. - r_relevanceScore r)
        (vectorResults e d query
          (case o_includeKeywords options of None \<Rightarrow> True | Some b \<Rightarrow> b) sims))"
      by (simp add: fst_searchResolved Let_def sims_def limit_def threshold_def)
    with mem set_slice0 have "r \<in> set (vectorResults e d query
          (case o_includeKeywords options of None \<Rightarrow> True | Some b \<Rightarrow> b) sims)"
      by fastforce
    then obtain c s mk where cs: "(c, s) \<in> set sims"
        and sc: "r_relevanceScore r = calculateRelevanceScore c query mk s"
      using vectorResults_scores by blast
    from cs have "threshold < s"
      by (auto simp: sims_def split: sum.splits dest: findSimilarChunks_threshold [OF sym])
    with sc show ?thesis unfolding threshold_def by blast
  qed
qed

text \<open>
  C7 (as the code has it). Whenever the configured similarity threshold is not negative
  (the default 0.5 included), every relevance score in a result of \<open>search\<close>, from the
  vector path or from the keyword fallback, lies between 0 and 1.
\<close>

theorem search_scores_bounded:
  assumes thr: "(case o_similarityThreshold options of None \<Rightarrow> True | Some t \<Rightarrow> 0 \<le> t)"
    and res: "fst (search e d query options) = Inr rs"
    and mem: "r \<in> set rs"
  shows "0 \<le> r_relevanceScore r \<and> r_relevanceScore r \<le> 1"
proof -
  have thr0: "0 \<le> (case o_similarityThreshold options of None \<Rightarrow> 1 / 2 | Some t \<Rightarrow> t)"
    using thr by (simp split: option.splits)
  from res mem obtain qe cid where "fst (searchResolved e d query options qe cid) = Inr rs"
    by (auto simp: search_def split: sum.splits option.splits if_splits)
  from searchResolved_scores [OF this mem] show ?thesis
  proof
    assume "\<exists>kws qks. r_relevanceScore r = calculateKeywordRelevanceScore kws qks"
    then show ?thesis using calculateKeywordRelevanceScore_bounds by auto
  next
    assume "\<exists>c s mk. (case o_similarityThreshold options of None \<Rightarrow> 1 / 2 | Some t \<Rightarrow> t) < s
            \<and> r_relevanceScore r = calculateRelevanceScore c query mk s"
    then obtain c s mk
      where "(case o_similarityThreshold options of None \<Rightarrow> 1 / 2 | Some t \<Rightarrow> t) < s"
        and sc: "r_relevanceScore r = calculateRelevanceScore c query mk s" by blast
    with thr0 have "0 \<le> s" by simp
    with sc show ?thesis
      using calculateRelevanceScore_ge_0 calculateRelevanceScore_le_1 by simp
  qed
qed

text \<open>The theorem applies: the default threshold, one result with score 1.\<close>

theorem search_scores_bounded_witness:
  "fst (search env_ok db_example ''obama'' options_default) = Inr [result_example]
   \<and> 0 \<le> r_relevanceScore result_example \<and> r_relevanceScore result_example \<le> 1"
proof -
  have thr: "(case o_similarityThreshold options_default of None \<Rightarrow> True | Some t \<Rightarrow> 0 \<le> t)"
    by (simp add: options_default_def)
  have res: "fst (search env_ok db_example ''obama'' options_default) = Inr [result_example]"
    by code_simp
  have mem: "result_example \<in> set [result_example]"
    by simp
  from search_scores_bounded [OF thr res mem] res show ?thesis by simp
qed

text \<open>
  C7 (as the specification states it) fails: with the threshold configured to -1, a chunk
  of similarity -0.5 passes the filter, and with no keyword or word match its composite
  score is -0.5.
\<close>

theorem search_negative_threshold_negative_score:
  "o_similarityThreshold options_negative_threshold = Some (- 1)
   \<and> (case fst (search env_dissimilar db_example ''zebra'' options_negative_threshold) of
         Inl err \<Rightarrow> [] | Inr rs \<Rightarrow> map r_relevanceScore rs) = [- 1 / 2]"
  by code_simp

subsection \<open>Video-level keywords and the keyword path\<close>

lemma concat_map_filter_empty:
  "(\<And>x. \<not> P x \<Longrightarrow> f x = []) \<Longrightarrow> concat (map f (filter P xs)) = concat (map f xs)"
  by (induction xs) auto

lemma keywordRows_drop_video_level:
  "keywordRows e (d\<lparr>videoKeyword := filter (\<lambda>k. k_chunkId k \<noteq> None) (videoKeyword d)\<rparr>) qks c n
     = keywordRows e d qks c n"
proof -
  have "concat (map f (filter (\<lambda>k. k_chunkId k \<noteq> None) (videoKeyword d)))
      = concat (map f (videoKeyword d))"
    if "f = (\<lambda>k. concat (map (\<lambda>chunk. concat (map (\<lambda>video.
             if k_chunkId k = Some (c_id chunk) \<and> c_videoId chunk = v_id video \<and> Q k video
             then [(k, chunk)] else [])
           (youtubeVideo d))) (transcriptChunk d)))" for f :: "VideoKeyword \<Rightarrow> (VideoKeyword \<times> TranscriptChunk) list" and Q
    by (rule concat_map_filter_empty) (simp add: that)
  then show ?thesis
    by (simp add: keywordRows_def)
qed

lemma keywordResults_videoKeyword:
  "keywordResults e (d\<lparr>videoKeyword := x\<rparr>) qks m = keywordResults e d qks m"
  by (induction m)
     (auto simp: getVideoById_def getChannelById_def split: option.splits sum.splits)

lemma getChannelDbIdByHandle_videoKeyword:
  "getChannelDbIdByHandle (d\<lparr>videoKeyword := x\<rparr>) h = getChannelDbIdByHandle d h"
  by (simp add: getChannelDbIdByHandle_def)

lemma keywordSearch_drop_video_level:
  "keywordSearch e (d\<lparr>videoKeyword := filter (\<lambda>k. k_chunkId k \<noteq> None) (videoKeyword d)\<rparr>) q opts
     = keywordSearch e d q opts"
  unfolding keywordSearch_def keywordSearchResolved_def keywordRows_drop_video_level
    keywordResults_videoKeyword getChannelDbIdByHandle_videoKeyword
  by (rule refl)

lemma keywordRows_origin:
  assumes "(chunk, kw) \<in> set (keywordRows e d qks c n)"
  shows "\<exists>k\<in>set (videoKeyword d). k_chunkId k = Some (c_id chunk) \<and> k_keyword k = kw"
proof -
  from assms obtain k where
    "(k, chunk) \<in> set (sql_limit n (sort_key (\<lambda>(k, chunk). - k_confidence k)
         (concat (map (\<lambda>k. concat (map (\<lambda>chunk. concat (map (\<lambda>video.
             if k_chunkId k = Some (c_id chunk) \<and> c_videoId chunk = v_id video
                \<and> (case c of
                      None \<Rightarrow> list_ex (\<lambda>keyword. keywordCondition keyword k) qks
                    | Some i \<Rightarrow>
                        if or_list_parenthesised e then
                          list_ex (\<lambda>keyword. keywordCondition keyword k) qks
                          \<and> v_channelId video = i
                        else
                          or_list_and (map (\<lambda>keyword. keywordCondition keyword k) qks)
                            (v_channelId video = i))
             then [(k, chunk)] else [])
           (youtubeVideo d))) (transcriptChunk d))) (videoKeyword d)))))"
    and kw: "kw = k_keyword k"
    by (auto simp: keywordRows_def)
  then have "k \<in> set (videoKeyword d) \<and> k_chunkId k = Some (c_id chunk)"
    by (auto dest!: set_sql_limitD split: if_splits)
  with kw show ?thesis by blast
qed

lemma chunkMap_add_ok:
  assumes "list_all (entry_ok ks) m"
    and "\<exists>k\<in>set ks. k_chunkId k = Some (c_id chunk) \<and> k_keyword k = kw"
  shows "list_all (entry_ok ks) (chunkMap_add m chunk kw)"
  using assms
proof (induction m)
  case Nil
  then show ?case by (simp add: entry_ok_def)
next
  case (Cons a m)
  obtain i data kws where a: "a = (i, data, kws)" by (cases a)
  show ?case
  proof (cases "i = c_id chunk")
    case True
    with Cons.prems show ?thesis
      unfolding a by (auto simp: entry_ok_def)
  next
    case False
    with Cons show ?thesis
      unfolding a by simp
  qed
qed

lemma foldl_chunkMap_add_ok:
  assumes "list_all (entry_ok ks) m"
    and "\<And>chunk kw. (chunk, kw) \<in> set rows \<Longrightarrow>
           \<exists>k\<in>set ks. k_chunkId k = Some (c_id chunk) \<and> k_keyword k = kw"
  shows "list_all (entry_ok ks) (foldl (\<lambda>m (chunk, kw). chunkMap_add m chunk kw) m rows)"
  using assms
proof (induction rows arbitrary: m)
  case Nil
  then show ?case by simp
next
  case (Cons row rows)
  obtain chunk kw where row: "row = (chunk, kw)" by (cases row)
  have "list_all (entry_ok ks) (chunkMap_add m chunk kw)"
    using Cons.prems(1) Cons.prems(2) [of chunk kw]
    unfolding row by (intro chunkMap_add_ok) simp_all
  then have "list_all (entry_ok ks)
      (foldl (\<lambda>m (chunk, kw). chunkMap_add m chunk kw) (chunkMap_add m chunk kw) rows)"
    using Cons.prems(2) by (intro Cons.IH) simp_all
  then show ?case
    unfolding row by simp
qed

lemma keywordResults_origin:
  "keywordResults e d qks m = Inr rs \<Longrightarrow> r \<in> set rs \<Longrightarrow>
     \<exists>(i, chunk, kws) \<in> set m. r_chunk r = chunk \<and> r_matchedKeywords r = kws"
proof (induction m arbitrary: rs)
  case Nil
  then show ?case by simp
next
  case (Cons a m)
  obtain i c kws where a: "a = (i, c, kws)" by (cases a)
  from Cons.prems Cons.IH show ?case
    unfolding a
    by (fastforce split: if_splits option.splits sum.splits)
qed

lemma keywordSearchResolved_origin:
  assumes "keywordSearchResolved e d q opts c = Inr rs" "r \<in> set rs"
  shows "r_matchedKeywords r \<noteq> []
     \<and> (\<forall>kw\<in>set (r_matchedKeywords r).
           \<exists>k\<in>set (videoKeyword d). k_chunkId k = Some (c_id (r_chunk r)) \<and> k_keyword k = kw)"
proof -
  define limit where "limit = (case o_limit opts of None \<Rightarrow> 10 | Some l \<Rightarrow> l)"
  define m where "m = foldl (\<lambda>m (chunk, kw). chunkMap_add m chunk kw) []
      (keywordRows e d (extractKeywordsFromQuery q) c (limit * 2))"
  from assms obtain searchResults where
      kr: "keywordResults e d (extractKeywordsFromQuery q) m = Inr searchResults"
      and "r \<in> set (slice0 limit (sort_key (\<lambda>r. - r_relevanceScore r) searchResults))"
    by (auto simp: keywordSearchResolved_def Let_def m_def limit_def
          split: if_splits sum.splits)
  with set_slice0 have "r \<in> set searchResults" by fastforce
  with kr obtain i chunk kws where "(i, chunk, kws) \<in> set m"
      and rc: "r_chunk r = chunk" "r_matchedKeywords r = kws"
    using keywordResults_origin by blast
  moreover have "list_all (entry_ok (videoKeyword d)) m"
    unfolding m_def
    by (rule foldl_chunkMap_add_ok) (simp_all add: keywordRows_origin)
  ultimately have "entry_ok (videoKeyword d) (i, chunk, kws)"
    by (simp add: list_all_iff)
  with rc show ?thesis
    by (auto simp: entry_ok_def)
qed

text \<open>
  C9. Removing every video-level keyword row (\<open>chunkId\<close> null) from the database changes
  nothing in what \<open>keywordSearch\<close> returns or throws; and every result it returns carries at
  least one matched keyword, each of which is the text of a keyword row whose \<open>chunkId\<close> is
  the identifier of the returned chunk.
\<close>

theorem keywordSearch_only_chunk_keywords:
  "keywordSearch e (d\<lparr>videoKeyword := filter (\<lambda>k. k_chunkId k \<noteq> None) (videoKeyword d)\<rparr>)
       query options
     = keywordSearch e d query options
   \<and> (\<forall>rs. keywordSearch e d query options = Inr rs \<longrightarrow>
        (\<forall>r\<in>set rs. r_matchedKeywords r \<noteq> []
           \<and> (\<forall>kw\<in>set (r_matchedKeywords r).
                \<exists>k\<in>set (videoKeyword d).
                  k_chunkId k = Some (c_id (r_chunk r)) \<and> k_keyword k = kw)))"
proof (intro conjI allI impI ballI)
  show "keywordSearch e (d\<lparr>videoKeyword := filter (\<lambda>k. k_chunkId k \<noteq> None) (videoKeyword d)\<rparr>)
       query options = keywordSearch e d query options"
    by (rule keywordSearch_drop_video_level)
next
  fix rs r
  assume ks: "keywordSearch e d query options = Inr rs" and mem: "r \<in> set rs"
  then obtain c where "keywordSearchResolved e d query options c = Inr rs"
    by (auto simp: keywordSearch_def split: option.splits if_splits)
  from keywordSearchResolved_origin [OF this mem]
  show "r_matchedKeywords r \<noteq> []"
    and "\<And>kw. kw \<in> set (r_matchedKeywords r) \<Longrightarrow>
           \<exists>k\<in>set (videoKeyword d). k_chunkId k = Some (c_id (r_chunk r)) \<and> k_keyword k = kw"
    by auto
qed

text \<open>
  The theorem applies: \<open>db_example\<close> holds a video-level keyword "Obama" of higher
  confidence, and the only result is reached through the chunk-level keyword.
\<close>

theorem keywordSearch_only_chunk_keywords_witness:
  "keywordSearch env_ok db_example ''obama'' options_default = Inr [result_example]
   \<and> keywordSearch env_ok
        (db_example\<lparr>videoKeyword := filter (\<lambda>k. k_chunkId k \<noteq> None) (videoKeyword db_example)\<rparr>)
        ''obama'' options_default = Inr [result_example]
   \<and> r_matchedKeywords result_example = [''Barack Obama'']
   \<and> c_id (r_chunk result_example) = 3"
proof -
  have ks: "keywordSearch env_ok db_example ''obama'' options_default = Inr [result_example]"
    by code_simp
  have mk: "r_matchedKeywords result_example = [''Barack Obama'']"
     "c_id (r_chunk result_example) = 3"
    by (simp_all add: result_example_def chunk_example_def)
  from keywordSearch_only_chunk_keywords [where e = env_ok and d = db_example
      and query = "''obama''" and options = options_default] ks mk
  show ?thesis by simp
qed

section \<open>Segmentation\<close>

subsection \<open>Sentences\<close>

lemma split_plus_chars:
  "\<Union> (set ` set (split_plus sep acc s)) = set acc \<union> {c \<in> set s. \<not> sep c}"
proof (induction sep acc s rule: split_plus.induct)
  case (1 sep acc)
  then show ?case by simp
next
  case (2 sep acc c cs)
  have dw: "{x \<in> set (dropWhile sep cs). \<not> sep x} = {x \<in> set cs. \<not> sep x}"
    by (induction cs) auto
  show ?case
  proof (cases "sep c")
    case True
    with 2 dw show ?thesis by auto
  next
    case False
    with 2 show ?thesis by auto
  qed
qed

lemma trim_nonempty: "trim s \<noteq> [] \<longleftrightarrow> (\<exists>c\<in>set s. \<not> isWhiteSpace c)"
proof -
  have "dropWhile P xs \<noteq> [] \<longleftrightarrow> (\<exists>x\<in>set xs. \<not> P x)" for P and xs :: "'a list"
    by (induction xs) auto
  note dw = this
  have "trim s \<noteq> [] \<longleftrightarrow> (\<exists>c\<in>set (rev (dropWhile isWhiteSpace s)). \<not> isWhiteSpace c)"
    unfolding trim_def by (simp only: rev_is_Nil_conv dw)
  also have "\<dots> \<longleftrightarrow> dropWhile isWhiteSpace s \<noteq> []"
  proof
    assume "\<exists>c\<in>set (rev (dropWhile isWhiteSpace s)). \<not> isWhiteSpace c"
    then obtain c where "c \<in> set (rev (dropWhile isWhiteSpace s))" by blast
    then show "dropWhile isWhiteSpace s \<noteq> []" by (cases "dropWhile isWhiteSpace s") simp_all
  next
    assume ne: "dropWhile isWhiteSpace s \<noteq> []"
    then have "\<not> isWhiteSpace (hd (dropWhile isWhiteSpace s))"
      by (rule hd_dropWhile)
    moreover from ne have "hd (dropWhile isWhiteSpace s) \<in> set (dropWhile isWhiteSpace s)"
      by simp
    ultimately show "\<exists>c\<in>set (rev (dropWhile isWhiteSpace s)). \<not> isWhiteSpace c"
      by auto
  qed
  also have "\<dots> \<longleftrightarrow> (\<exists>c\<in>set s. \<not> isWhiteSpace c)"
    by (rule dw)
  finally show ?thesis .
qed

lemma splitIntoSentences_nonempty:
  "splitIntoSentences t \<noteq> [] \<longleftrightarrow> (\<exists>c\<in>set t. \<not> isSentenceEnd c \<and> \<not> isWhiteSpace c)"
proof -
  have "splitIntoSentences t \<noteq> []
      \<longleftrightarrow> (\<exists>p\<in>set (split_plus isSentenceEnd [] t). trim p \<noteq> [])"
    by (auto simp: splitIntoSentences_def filter_empty_conv)
  also have "\<dots> \<longleftrightarrow> (\<exists>p\<in>set (split_plus isSentenceEnd [] t). \<exists>c\<in>set p. \<not> isWhiteSpace c)"
    by (simp add: trim_nonempty)
  also have "\<dots> \<longleftrightarrow> (\<exists>c\<in>\<Union> (set ` set (split_plus isSentenceEnd [] t)). \<not> isWhiteSpace c)"
    by auto
  also have "\<dots> \<longleftrightarrow> (\<exists>c\<in>set t. \<not> isSentenceEnd c \<and> \<not> isWhiteSpace c)"
    unfolding split_plus_chars by auto
  finally show ?thesis .
qed

lemma splitIntoSentences_members: "s \<in> set (splitIntoSentences t) \<Longrightarrow> s \<noteq> []"
  by (auto simp: splitIntoSentences_def)

subsection \<open>The segmentation loop\<close>

lemma chunkLoop_currentChunk:
  "\<forall>s\<in>set ss. s \<noteq> [] \<Longrightarrow>
     sg_currentChunk (chunkLoop vid ss st) \<noteq> [] \<longleftrightarrow> sg_currentChunk st \<noteq> [] \<or> ss \<noteq> []"
proof (induction ss arbitrary: st)
  case Nil
  then show ?case by simp
next
  case (Cons s ss)
  then show ?case
    by (simp add: Let_def split: prod.splits)
qed

lemma chunkLoop_within_budget:
  "sg_currentTokens st + sum_list (map estimateTokenCount ss) \<le> CHUNK_SIZE \<Longrightarrow>
     sg_chunks (chunkLoop vid ss st) = sg_chunks st"
proof (induction ss arbitrary: st)
  case Nil
  then show ?case by simp
next
  case (Cons s ss)
  then show ?case
    by (simp add: Let_def add.assoc)
qed

lemma createTranscriptChunks_length:
  "length (fst (createTranscriptChunks vid t d)) =
     (let st = chunkLoop vid (splitIntoSentences t)
                 \<lparr> sg_chunks = [], sg_currentChunk = [], sg_currentTokens = 0,
                   sg_chunkIndex = 0, sg_startTime = 0, sg_db = d \<rparr>
      in length (sg_chunks st) + (if splitIntoSentences t \<noteq> [] then 1 else 0))"
proof -
  have "sg_currentChunk (chunkLoop vid (splitIntoSentences t)
                 \<lparr> sg_chunks = [], sg_currentChunk = [], sg_currentTokens = 0,
                   sg_chunkIndex = 0, sg_startTime = 0, sg_db = d \<rparr>) \<noteq> []
      \<longleftrightarrow> splitIntoSentences t \<noteq> []"
    by (subst chunkLoop_currentChunk) (simp_all add: splitIntoSentences_members)
  then show ?thesis
    by (simp add: createTranscriptChunks_def Let_def split: prod.splits)
qed

text \<open>
  C4 (as the code has it). Segmentation produces at least one chunk if and only if the
  transcript contains a character that is neither whitespace nor one of the sentence
  delimiters (that is, if and only if it has a sentence); the empty transcript yields zero
  chunks; and a transcript with a sentence whose sentences' estimated token counts sum to
  at most the chunk budget yields exactly one chunk.
\<close>

theorem createTranscriptChunks_count:
  "(1 \<le> length (fst (createTranscriptChunks vid t d))
      \<longleftrightarrow> (\<exists>c\<in>set t. \<not> isSentenceEnd c \<and> \<not> isWhiteSpace c))
   \<and> fst (createTranscriptChunks vid [] d) = []
   \<and> ((\<exists>c\<in>set t. \<not> isSentenceEnd c \<and> \<not> isWhiteSpace c)
        \<and> sum_list (map estimateTokenCount (splitIntoSentences t)) \<le> CHUNK_SIZE
      \<longrightarrow> length (fst (createTranscriptChunks vid t d)) = 1)"
proof (intro conjI impI)
  show "1 \<le> length (fst (createTranscriptChunks vid t d))
      \<longleftrightarrow> (\<exists>c\<in>set t. \<not> isSentenceEnd c \<and> \<not> isWhiteSpace c)"
  proof (cases "splitIntoSentences t = []")
    case True
    then show ?thesis
      using splitIntoSentences_nonempty [of t]
      by (simp add: createTranscriptChunks_length)
  next
    case False
    then show ?thesis
      using splitIntoSentences_nonempty [of t]
      by (simp add: createTranscriptChunks_length Let_def)
  qed
next
  have "splitIntoSentences [] = []"
    by (simp add: splitIntoSentences_def trim_def)
  then show "fst (createTranscriptChunks vid [] d) = []"
    by (simp add: createTranscriptChunks_def)
next
  assume a: "(\<exists>c\<in>set t. \<not> isSentenceEnd c \<and> \<not> isWhiteSpace c)
        \<and> sum_list (map estimateTokenCount (splitIntoSentences t)) \<le> CHUNK_SIZE"
  then have ne: "splitIntoSentences t \<noteq> []"
    using splitIntoSentences_nonempty [of t] by simp
  from a have "sg_chunks (chunkLoop vid (splitIntoSentences t)
                 \<lparr> sg_chunks = [], sg_currentChunk = [], sg_currentTokens = 0,
                   sg_chunkIndex = 0, sg_startTime = 0, sg_db = d \<rparr>) = []"
    by (subst chunkLoop_within_budget) simp_all
  with ne show "length (fst (createTranscriptChunks vid t d)) = 1"
    by (simp add: createTranscriptChunks_length Let_def)
qed

text \<open>The theorem applies: three sentences of 12 estimated tokens, one chunk.\<close>

theorem createTranscriptChunks_count_witness:
  "(\<exists>c\<in>set transcript_three_sentences. \<not> isSentenceEnd c \<and> \<not> isWhiteSpace c)
   \<and> sum_list (map estimateTokenCount (splitIntoSentences transcript_three_sentences))
       \<le> CHUNK_SIZE
   \<and> length (fst (createTranscriptChunks 7 transcript_three_sentences db_empty)) = 1"
proof -
  have a: "\<exists>c\<in>set transcript_three_sentences. \<not> isSentenceEnd c \<and> \<not> isWhiteSpace c"
    by code_simp
  have b: "sum_list (map estimateTokenCount (splitIntoSentences transcript_three_sentences))
       \<le> CHUNK_SIZE"
    by code_simp
  from createTranscriptChunks_count [of 7 transcript_three_sentences db_empty] a b
  show ?thesis by blast
qed

text \<open>
  C4 (as the specification states it) fails: the transcript "..." is not empty and its
  estimated token count is one, yet it has no sentence and segmentation produces no chunk.
\<close>

theorem createTranscriptChunks_punctuation_only:
  "''...'' \<noteq> [] \<and> estimateTokenCount ''...'' \<le> CHUNK_SIZE
   \<and> fst (createTranscriptChunks 7 ''...'' db_empty) = []"
  by code_simp

text \<open>
  The budget is compared with the sum of the sentences' estimates, not with the estimate of
  the whole transcript: 401 one-letter sentences are 802 characters, estimated at 201
  tokens as a whole, and are cut into two chunks.
\<close>

lemma createTranscriptChunks_many_sentences:
  "length (fst (createTranscriptChunks 7 transcript_many_sentences db_empty)) = 2"
  by code_simp

lemma estimateTokenCount_many_sentences:
  "estimateTokenCount transcript_many_sentences = 201"
  by code_simp

subsection \<open>Chunk times\<close>

lemma contiguous_snoc:
  "contiguous s cs e \<Longrightarrow> c_startTime c = e \<Longrightarrow> c_startTime c \<le> c_endTime c \<Longrightarrow>
     contiguous s (cs @ [c]) (c_endTime c)"
  by (induction cs arbitrary: s) auto

lemma insertTranscriptChunk_times:
  "insertTranscriptChunk d vid i cur s tok = (c, d') \<Longrightarrow>
     c_startTime c = s \<and> c_startTime c \<le> c_endTime c"
  by (auto simp: insertTranscriptChunk_def Let_def)

lemma chunkLoop_contiguous:
  "contiguous 0 (sg_chunks st) (sg_startTime st) \<Longrightarrow>
     contiguous 0 (sg_chunks (chunkLoop vid ss st)) (sg_startTime (chunkLoop vid ss st))"
proof (induction ss arbitrary: st)
  case Nil
  then show ?case by simp
next
  case (Cons s ss)
  show ?case
  proof (cases "sg_currentTokens st + estimateTokenCount s > CHUNK_SIZE \<and> sg_currentChunk st \<noteq> []")
    case True
    obtain c d' where ins: "insertTranscriptChunk (sg_db st) vid (sg_chunkIndex st)
        (sg_currentChunk st) (sg_startTime st) (sg_currentTokens st) = (c, d')"
      by (cases "insertTranscriptChunk (sg_db st) vid (sg_chunkIndex st)
        (sg_currentChunk st) (sg_startTime st) (sg_currentTokens st)")
    from insertTranscriptChunk_times [OF ins] Cons.prems
    have "contiguous 0 (sg_chunks st @ [c]) (c_endTime c)"
      by (intro contiguous_snoc) simp_all
    then have "contiguous 0
        (sg_chunks (chunkLoop vid ss
           \<lparr> sg_chunks = sg_chunks st @ [c],
             sg_currentChunk = getOverlapText (sg_currentChunk st) CHUNK_OVERLAP @ '' '' @ s,
             sg_currentTokens = estimateTokenCount
               (getOverlapText (sg_currentChunk st) CHUNK_OVERLAP @ '' '' @ s),
             sg_chunkIndex = sg_chunkIndex st + 1, sg_startTime = c_endTime c,
             sg_db = d' \<rparr>))
        (sg_startTime (chunkLoop vid ss
           \<lparr> sg_chunks = sg_chunks st @ [c],
             sg_currentChunk = getOverlapText (sg_currentChunk st) CHUNK_OVERLAP @ '' '' @ s,
             sg_currentTokens = estimateTokenCount
               (getOverlapText (sg_currentChunk st) CHUNK_OVERLAP @ '' '' @ s),
             sg_chunkIndex = sg_chunkIndex st + 1, sg_startTime = c_endTime c,
             sg_db = d' \<rparr>))"
      by (intro Cons.IH) simp
    then show ?thesis
      by (simp only: chunkLoop.simps Let_def if_P [OF True] ins prod.case)
  next
    case False
    have "contiguous 0
        (sg_chunks (chunkLoop vid ss
           (st\<lparr> sg_currentChunk :=
                   sg_currentChunk st @ (if sg_currentChunk st \<noteq> [] then '' '' else []) @ s,
                sg_currentTokens := sg_currentTokens st + estimateTokenCount s \<rparr>)))
        (sg_startTime (chunkLoop vid ss
           (st\<lparr> sg_currentChunk :=
                   sg_currentChunk st @ (if sg_currentChunk st \<noteq> [] then '' '' else []) @ s,
                sg_currentTokens := sg_currentTokens st + estimateTokenCount s \<rparr>)))"
      using Cons.prems by (intro Cons.IH) simp
    then show ?thesis
      by (simp only: chunkLoop.simps Let_def if_not_P [OF False])
  qed
qed

lemma createTranscriptChunks_contiguous:
  "\<exists>e. contiguous 0 (fst (createTranscriptChunks vid t d)) e"
proof -
  define st where "st = chunkLoop vid (splitIntoSentences t)
                 \<lparr> sg_chunks = [], sg_currentChunk = [], sg_currentTokens = 0,
                   sg_chunkIndex = 0, sg_startTime = 0, sg_db = d \<rparr>"
  have inv: "contiguous 0 (sg_chunks st) (sg_startTime st)"
    unfolding st_def by (rule chunkLoop_contiguous) simp
  show ?thesis
  proof (cases "sg_currentChunk st \<noteq> []")
    case True
    obtain c d' where ins: "insertTranscriptChunk (sg_db st) vid (sg_chunkIndex st)
        (sg_currentChunk st) (sg_startTime st) (sg_currentTokens st) = (c, d')"
      by (cases "insertTranscriptChunk (sg_db st) vid (sg_chunkIndex st)
        (sg_currentChunk st) (sg_startTime st) (sg_currentTokens st)")
    from insertTranscriptChunk_times [OF ins] inv
    have "contiguous 0 (sg_chunks st @ [c]) (c_endTime c)"
      by (intro contiguous_snoc) simp_all
    with True ins show ?thesis
      by (auto simp: createTranscriptChunks_def Let_def simp flip: st_def)
  next
    case False
    with inv show ?thesis
      by (auto simp: createTranscriptChunks_def Let_def simp flip: st_def)
  qed
qed

lemma contiguous_props:
  "contiguous s cs e \<Longrightarrow>
     (\<forall>c\<in>set cs. c_startTime c \<le> c_endTime c)
     \<and> (case cs of [] \<Rightarrow> True | c # _ \<Rightarrow> c_startTime c = s)
     \<and> (\<forall>i. Suc i < length cs \<longrightarrow> c_endTime (cs ! i) = c_startTime (cs ! Suc i))"
proof (induction cs arbitrary: s)
  case Nil
  then show ?case by simp
next
  case (Cons c cs)
  from Cons.prems have "contiguous (c_endTime c) cs e" by simp
  from Cons.IH [OF this]
  have ih: "(\<forall>c\<in>set cs. c_startTime c \<le> c_endTime c)
     \<and> (case cs of [] \<Rightarrow> True | c' # _ \<Rightarrow> c_startTime c' = c_endTime c)
     \<and> (\<forall>i. Suc i < length cs \<longrightarrow> c_endTime (cs ! i) = c_startTime (cs ! Suc i))" .
  have "c_endTime ((c # cs) ! i) = c_startTime ((c # cs) ! Suc i)" if "Suc i < length (c # cs)" for i
  proof (cases i)
    case 0
    with that ih show ?thesis by (cases cs) simp_all
  next
    case (Suc j)
    with that ih show ?thesis by simp
  qed
  with Cons.prems ih show ?case by simp
qed

text \<open>
  C5. For every transcript, in the chunk sequence produced by segmentation every chunk has
  \<open>startTime \<le> endTime\<close>, the first chunk (if any) has \<open>startTime\<close> 0, and every chunk ends
  where the next one starts.
\<close>

theorem createTranscriptChunks_times:
  "(\<forall>c\<in>set (fst (createTranscriptChunks vid t d)). c_startTime c \<le> c_endTime c)
   \<and> (case fst (createTranscriptChunks vid t d) of [] \<Rightarrow> True | c # _ \<Rightarrow> c_startTime c = 0)
   \<and> (\<forall>i. Suc i < length (fst (createTranscriptChunks vid t d)) \<longrightarrow>
         c_endTime (fst (createTranscriptChunks vid t d) ! i)
           = c_startTime (fst (createTranscriptChunks vid t d) ! Suc i))"
  using createTranscriptChunks_contiguous [of vid t d] contiguous_props by blast

text \<open>The theorem applies: the two chunks of 401 one-letter sentences.\<close>

theorem createTranscriptChunks_times_witness:
  "Suc 0 < length (fst (createTranscriptChunks 7 transcript_many_sentences db_empty))
   \<and> c_endTime (fst (createTranscriptChunks 7 transcript_many_sentences db_empty) ! 0)
       = c_startTime (fst (createTranscriptChunks 7 transcript_many_sentences db_empty) ! Suc 0)"
  using createTranscriptChunks_times [of 7 transcript_many_sentences db_empty]
    createTranscriptChunks_many_sentences
  by simp

section \<open>Keyword rows of a chunk\<close>







subsection \<open>Rounding of the product\<close>






text \<open>
  Two values of the rounding: the double written \<open>0.1\<close>, and the product of 100 and the
  double nearest to 0.585, which is rounded to 58.5 and then to 59 (the exact product lies
  below 58.5).
\<close>

lemma toDouble_tenth: "toDouble (1 / 10) = 3602879701896397 / 2 ^ 55"
  by code_simp

lemma round_toDouble_example:
  "toDouble (658651445502935 / 2 ^ 50 * 100) = 117 / 2
   \<and> round (toDouble (658651445502935 / 2 ^ 50 * 100)) = 59
   \<and> round (658651445502935 / 2 ^ 50 * 100 :: rat) = 58"
  by code_simp






section \<open>Idempotent upserts\<close>

lemma filter_key_absent:
  "k \<notin> key ` set xs \<Longrightarrow> filter (\<lambda>y. key y = k) xs = []"
  by (auto simp: filter_empty_conv)

lemma filter_key_distinct:
  "distinct (map key xs) \<Longrightarrow> x \<in> set xs \<Longrightarrow> filter (\<lambda>y. key y = key x) xs = [x]"
proof (induction xs)
  case Nil
  then show ?case by simp
next
  case (Cons a xs)
  show ?case
  proof (cases "a = x")
    case True
    with Cons.prems have "key x \<notin> key ` set xs" by simp
    then have "filter (\<lambda>y. key y = key x) xs = []"
      by (rule filter_key_absent)
    with True show ?thesis by simp
  next
    case False
    with Cons.prems have "x \<in> set xs" "key a \<noteq> key x"
      by auto
    with Cons show ?thesis by simp
  qed
qed

lemma key_distinct_unique:
  assumes "distinct (map key xs)" "x \<in> set xs" "y \<in> set xs" "key y = key x"
  shows "y = x"
proof -
  from assms(3,4) have "y \<in> set (filter (\<lambda>z. key z = key x) xs)" by simp
  with filter_key_distinct [OF assms(1,2)] show ?thesis by simp
qed

lemma filter_map_update:
  "(\<And>x. key (f x) = key x) \<Longrightarrow>
     filter (\<lambda>y. key y = k) (map (\<lambda>x. if key x = k then f x else x) xs)
       = map f (filter (\<lambda>y. key y = k) xs)"
  by (induction xs) auto

lemma map_key_update:
  "(\<And>x. key (f x) = key x) \<Longrightarrow> map key (map (\<lambda>x. if key x = k then f x else x) xs) = map key xs"
  by (induction xs) auto

lemma createChannelRecord_existing:
  assumes url: "extractChannelIdFromUrl url = Inr cid"
    and dist: "distinct (map ch_channelId (youtubeChannel d))"
    and mem: "c0 \<in> set (youtubeChannel d)" and cid: "ch_channelId c0 = cid"
  shows "createChannelRecord d t url name =
     Inr (c0\<lparr> ch_channelName := name, ch_channelUrl := url, ch_updatedAt := t \<rparr>,
          d\<lparr> youtubeChannel :=
               map (\<lambda>c. if ch_channelId c = cid
                         then c\<lparr> ch_channelName := name, ch_channelUrl := url,
                                 ch_updatedAt := t \<rparr>
                         else c) (youtubeChannel d) \<rparr>)"
proof -
  from filter_key_distinct [OF dist mem] cid
  have f: "filter (\<lambda>c. ch_channelId c = cid) (youtubeChannel d) = [c0]" by simp
  have "filter (\<lambda>c. ch_channelId c = cid)
          (map (\<lambda>c. if ch_channelId c = cid
                    then c\<lparr> ch_channelName := name, ch_channelUrl := url, ch_updatedAt := t \<rparr>
                    else c) (youtubeChannel d))
      = map (\<lambda>c. c\<lparr> ch_channelName := name, ch_channelUrl := url, ch_updatedAt := t \<rparr>)
          (filter (\<lambda>c. ch_channelId c = cid) (youtubeChannel d))"
    by (rule filter_map_update) simp
  with f show ?thesis
    by (simp add: createChannelRecord_def url Let_def)
qed

lemma createChannelRecord_new:
  assumes url: "extractChannelIdFromUrl url = Inr cid"
    and new: "cid \<notin> ch_channelId ` set (youtubeChannel d)"
  shows "createChannelRecord d t url name =
     Inr (\<lparr> ch_id = nextId d, ch_channelId = cid, ch_channelName = name, ch_channelUrl = url,
            ch_createdAt = t, ch_updatedAt = t, ch_isIndexed = False,
            ch_lastIndexedAt = None \<rparr>,
          d\<lparr> youtubeChannel := youtubeChannel d
               @ [\<lparr> ch_id = nextId d, ch_channelId = cid, ch_channelName = name,
                    ch_channelUrl = url, ch_createdAt = t, ch_updatedAt = t,
                    ch_isIndexed = False, ch_lastIndexedAt = None \<rparr>],
             nextId := Suc (nextId d) \<rparr>)"
  using filter_key_absent [OF new]
  by (simp add: createChannelRecord_def url Let_def)

text \<open>What one call of \<open>createChannelRecord\<close> establishes.\<close>

lemma createChannelRecord_result:
  assumes dist: "distinct (map ch_channelId (youtubeChannel d))"
    and run: "createChannelRecord d t url name = Inr (c, d')"
  shows "extractChannelIdFromUrl url = Inr (ch_channelId c)
     \<and> distinct (map ch_channelId (youtubeChannel d'))
     \<and> c \<in> set (youtubeChannel d')
     \<and> ch_channelName c = name \<and> ch_channelUrl c = url \<and> ch_updatedAt c = t
     \<and> youtubeVideo d' = youtubeVideo d
     \<and> (ch_channelId c \<in> ch_channelId ` set (youtubeChannel d) \<longrightarrow>
          length (youtubeChannel d') = length (youtubeChannel d)
          \<and> (\<exists>c0\<in>set (youtubeChannel d).
                c = c0\<lparr> ch_channelName := name, ch_channelUrl := url, ch_updatedAt := t \<rparr>))"
proof -
  from run obtain cid where url: "extractChannelIdFromUrl url = Inr cid"
    by (cases "extractChannelIdFromUrl url") (simp_all add: createChannelRecord_def)
  show ?thesis
  proof (cases "cid \<in> ch_channelId ` set (youtubeChannel d)")
    case True
    then obtain c0 where c0: "c0 \<in> set (youtubeChannel d)" "ch_channelId c0 = cid"
      by auto
    let ?f = "\<lambda>c. c\<lparr> ch_channelName := name, ch_channelUrl := url, ch_updatedAt := t \<rparr>"
    from createChannelRecord_existing [OF url dist c0, of t name] run
    have c: "c = ?f c0"
      and d': "d' = d\<lparr> youtubeChannel :=
               map (\<lambda>c. if ch_channelId c = cid then ?f c else c) (youtubeChannel d) \<rparr>"
      by simp_all
    have keys: "map ch_channelId (youtubeChannel d') = map ch_channelId (youtubeChannel d)"
      unfolding d' by (simp add: map_key_update)
    have mem: "c \<in> set (youtubeChannel d')"
      unfolding d' c using c0 by (auto simp: image_iff intro!: bexI [of _ c0])
    have dist': "distinct (map ch_channelId (youtubeChannel d'))"
      using keys dist by simp
    have len: "length (youtubeChannel d') = length (youtubeChannel d)"
      unfolding d' by simp
    have vid: "youtubeVideo d' = youtubeVideo d"
      unfolding d' by simp
    have fields: "ch_channelId c = cid" "ch_channelName c = name" "ch_channelUrl c = url"
        "ch_updatedAt c = t"
      unfolding c using c0 by simp_all
    from c0 c have "\<exists>c0\<in>set (youtubeChannel d). c = ?f c0" by blast
    with url mem dist' len vid fields show ?thesis
      by simp
  next
    case False
    from createChannelRecord_new [OF url False, of t name] run
    have c: "c = \<lparr> ch_id = nextId d, ch_channelId = cid, ch_channelName = name,
            ch_channelUrl = url, ch_createdAt = t, ch_updatedAt = t, ch_isIndexed = False,
            ch_lastIndexedAt = None \<rparr>"
      and d': "d' = d\<lparr> youtubeChannel := youtubeChannel d @ [c], nextId := Suc (nextId d) \<rparr>"
      by simp_all
    with url dist False show ?thesis
      by auto
  qed
qed


lemma videoConflictSet_twice:
  "videoConflictSet t' vals (videoConflictSet t vals v) = (videoConflictSet t vals v)\<lparr> v_updatedAt := t' \<rparr>"
  by (simp add: videoConflictSet_def)

lemma videoConflictSet_insert:
  "videoConflictSet t' vals (videoInsertRow i t vals) = (videoInsertRow i t vals)\<lparr> v_updatedAt := t' \<rparr>"
  by (simp add: videoConflictSet_def videoInsertRow_def)

lemma videoConflictSet_key: "v_videoId (videoConflictSet t vals v) = v_videoId v"
  by (simp add: videoConflictSet_def)

lemma upsertVideo_existing:
  assumes dist: "distinct (map v_videoId (youtubeVideo d))"
    and mem: "v0 \<in> set (youtubeVideo d)" and vid: "v_videoId v0 = vv_videoId vals"
  shows "upsertVideo d t vals =
     Inr (videoConflictSet t vals v0,
          d\<lparr> youtubeVideo :=
               map (\<lambda>v. if v_videoId v = vv_videoId vals then videoConflictSet t vals v else v)
                 (youtubeVideo d) \<rparr>)"
proof -
  from filter_key_distinct [OF dist mem] vid
  have f: "filter (\<lambda>v. v_videoId v = vv_videoId vals) (youtubeVideo d) = [v0]" by simp
  have "filter (\<lambda>v. v_videoId v = vv_videoId vals)
          (map (\<lambda>v. if v_videoId v = vv_videoId vals then videoConflictSet t vals v else v)
             (youtubeVideo d))
      = map (videoConflictSet t vals) (filter (\<lambda>v. v_videoId v = vv_videoId vals) (youtubeVideo d))"
    by (rule filter_map_update) (rule videoConflictSet_key)
  moreover from mem vid have "list_ex (\<lambda>v. v_videoId v = vv_videoId vals) (youtubeVideo d)"
    by (auto simp: list_ex_iff)
  ultimately show ?thesis
    using f by (simp add: upsertVideo_def Let_def)
qed

lemma upsertVideo_new:
  assumes "vv_videoId vals \<notin> v_videoId ` set (youtubeVideo d)"
  shows "upsertVideo d t vals =
     Inr (videoInsertRow (nextId d) t vals,
          d\<lparr> youtubeVideo := youtubeVideo d @ [videoInsertRow (nextId d) t vals],
             nextId := Suc (nextId d) \<rparr>)"
proof -
  from assms have "\<not> list_ex (\<lambda>v. v_videoId v = vv_videoId vals) (youtubeVideo d)"
    by (force simp: list_ex_iff)
  then show ?thesis
    by (simp add: upsertVideo_def Let_def)
qed

lemma upsertVideo_result:
  assumes dist: "distinct (map v_videoId (youtubeVideo d))"
    and run: "upsertVideo d t vals = Inr (v, d')"
  shows "v_videoId v = vv_videoId vals
     \<and> distinct (map v_videoId (youtubeVideo d'))
     \<and> v \<in> set (youtubeVideo d')
     \<and> videoConflictSet t' vals v = v\<lparr> v_updatedAt := t' \<rparr>
     \<and> youtubeChannel d' = youtubeChannel d
     \<and> (vv_videoId vals \<in> v_videoId ` set (youtubeVideo d) \<longrightarrow>
          length (youtubeVideo d') = length (youtubeVideo d)
          \<and> (\<exists>v0\<in>set (youtubeVideo d). v = videoConflictSet t vals v0))"
proof (cases "vv_videoId vals \<in> v_videoId ` set (youtubeVideo d)")
  case True
  then obtain v0 where v0: "v0 \<in> set (youtubeVideo d)" "v_videoId v0 = vv_videoId vals"
    by auto
  from upsertVideo_existing [OF dist v0, of t] run
  have v: "v = videoConflictSet t vals v0"
    and d': "d' = d\<lparr> youtubeVideo :=
               map (\<lambda>v. if v_videoId v = vv_videoId vals then videoConflictSet t vals v else v)
                 (youtubeVideo d) \<rparr>"
    by simp_all
  have keys: "map v_videoId (youtubeVideo d') = map v_videoId (youtubeVideo d)"
    unfolding d' by (simp add: map_key_update videoConflictSet_key)
  have mem: "v \<in> set (youtubeVideo d')"
    unfolding d' v using v0 by (auto simp: image_iff intro!: bexI [of _ v0])
  have dist': "distinct (map v_videoId (youtubeVideo d'))"
    using keys dist by simp
  have len: "length (youtubeVideo d') = length (youtubeVideo d)"
    unfolding d' by simp
  have ch: "youtubeChannel d' = youtubeChannel d"
    unfolding d' by simp
  have key: "v_videoId v = vv_videoId vals"
    unfolding v using v0 by (simp add: videoConflictSet_key)
  have twice: "videoConflictSet t' vals v = v\<lparr> v_updatedAt := t' \<rparr>"
    unfolding v by (rule videoConflictSet_twice)
  from v0 v have "\<exists>v0\<in>set (youtubeVideo d). v = videoConflictSet t vals v0" by blast
  with key dist' mem twice ch len show ?thesis
    by simp
next
  case False
  from upsertVideo_new [OF False, of t] run
  have v: "v = videoInsertRow (nextId d) t vals"
    and d': "d' = d\<lparr> youtubeVideo := youtubeVideo d @ [v], nextId := Suc (nextId d) \<rparr>"
    by simp_all
  have key: "v_videoId v = vv_videoId vals"
    unfolding v by (simp add: videoInsertRow_def)
  have twice: "videoConflictSet t' vals v = v\<lparr> v_updatedAt := t' \<rparr>"
    unfolding v by (rule videoConflictSet_insert)
  from dist False key have dist': "distinct (map v_videoId (youtubeVideo d'))"
    unfolding d' by simp
  from d' have "v \<in> set (youtubeVideo d')" "youtubeChannel d' = youtubeChannel d"
    by simp_all
  with key dist' twice False show ?thesis
    by simp
qed

text \<open>The columns of the row that \<open>upsertVideo\<close> returns, on either branch.\<close>

lemma upsertVideo_fields:
  assumes dist: "distinct (map v_videoId (youtubeVideo d))"
    and run: "upsertVideo d t vals = Inr (v, d')"
  shows "v_title v = vv_title vals
     \<and> v_description v = vv_description vals
     \<and> v_publishedAt v = vv_publishedAt vals
     \<and> v_duration v = vv_duration vals
     \<and> v_viewCount v = vv_viewCount vals
     \<and> v_likeCount v = vv_likeCount vals
     \<and> v_thumbnailUrl v = ''https://img.youtube.com/vi/'' @ vv_videoId vals @ ''/hqdefault.jpg''
     \<and> v_videoUrl v = ''https://www.youtube.com/watch?v='' @ vv_videoId vals
     \<and> v_isTranscriptAvailable v
     \<and> v_transcript v = vv_transcript vals
     \<and> v_transcriptLength v = length (vv_transcript vals)
     \<and> v_updatedAt v = t"
proof (cases "vv_videoId vals \<in> v_videoId ` set (youtubeVideo d)")
  case True
  then obtain v0 where v0: "v0 \<in> set (youtubeVideo d)" "v_videoId v0 = vv_videoId vals"
    by auto
  from upsertVideo_existing [OF dist v0, of t] run
  have "v = videoConflictSet t vals v0" by simp
  then show ?thesis
    by (simp add: videoConflictSet_def)
next
  case False
  from upsertVideo_new [OF False, of t] run
  have "v = videoInsertRow (nextId d) t vals" by simp
  then show ?thesis
    by (simp add: videoInsertRow_def)
qed

text \<open>
  C6. On a database that respects the unique constraints on the external channel and video
  identifiers, two successive passes of the channel upsert and the video upsert with the
  same source data leave exactly one Channel row and one Video row for these identifiers:
  the second pass inserts no row, and the rows it returns are those of the first pass with
  \<open>updatedAt\<close> refreshed. These rows hold the source data, whatever the database held
  before the first pass: the channel row has the name and URL given, and the video row has
  the title, description, publication time, duration, view and like counts, thumbnail and
  video URLs, transcript, transcript length and availability flag of the values given.
\<close>

theorem upsert_twice_one_row:
  assumes cdist: "distinct (map ch_channelId (youtubeChannel d))"
    and vdist: "distinct (map v_videoId (youtubeVideo d))"
    and c1: "createChannelRecord d t1 url name = Inr (c1, d1)"
    and v1: "upsertVideo d1 t2 vals = Inr (v1, d2)"
    and c2: "createChannelRecord d2 t3 url name = Inr (c2, d3)"
    and v2: "upsertVideo d3 t4 vals = Inr (v2, d4)"
  shows "filter (\<lambda>c. ch_channelId c = ch_channelId c1) (youtubeChannel d4) = [c2]
     \<and> filter (\<lambda>v. v_videoId v = vv_videoId vals) (youtubeVideo d4) = [v2]
     \<and> length (youtubeChannel d4) = length (youtubeChannel d1)
     \<and> length (youtubeVideo d4) = length (youtubeVideo d2)
     \<and> c2 = c1\<lparr> ch_updatedAt := t3 \<rparr>
     \<and> v2 = v1\<lparr> v_updatedAt := t4 \<rparr>
     \<and> extractChannelIdFromUrl url = Inr (ch_channelId c2)
     \<and> ch_channelName c2 = name
     \<and> ch_channelUrl c2 = url
     \<and> ch_updatedAt c2 = t3
     \<and> v_videoId v2 = vv_videoId vals
     \<and> v_title v2 = vv_title vals
     \<and> v_description v2 = vv_description vals
     \<and> v_publishedAt v2 = vv_publishedAt vals
     \<and> v_duration v2 = vv_duration vals
     \<and> v_viewCount v2 = vv_viewCount vals
     \<and> v_likeCount v2 = vv_likeCount vals
     \<and> v_thumbnailUrl v2 = ''https://img.youtube.com/vi/'' @ vv_videoId vals @ ''/hqdefault.jpg''
     \<and> v_videoUrl v2 = ''https://www.youtube.com/watch?v='' @ vv_videoId vals
     \<and> v_isTranscriptAvailable v2
     \<and> v_transcript v2 = vv_transcript vals
     \<and> v_transcriptLength v2 = length (vv_transcript vals)
     \<and> v_updatedAt v2 = t4"
proof -
  note r1 = createChannelRecord_result [OF cdist c1]
  from r1 have d1v: "youtubeVideo d1 = youtubeVideo d" by simp
  with vdist have vdist1: "distinct (map v_videoId (youtubeVideo d1))" by simp
  note s1 = upsertVideo_result [OF vdist1 v1, of t4]
  from s1 have d2c: "youtubeChannel d2 = youtubeChannel d1" by simp
  with r1 have cdist2: "distinct (map ch_channelId (youtubeChannel d2))" by simp
  note r2 = createChannelRecord_result [OF cdist2 c2]
  from r1 r2 have same: "ch_channelId c2 = ch_channelId c1" by simp
  from r1 d2c have c1mem: "c1 \<in> set (youtubeChannel d2)" by simp
  with same have "ch_channelId c2 \<in> ch_channelId ` set (youtubeChannel d2)"
    by force
  with r2 obtain c0 where c0: "c0 \<in> set (youtubeChannel d2)"
      "c2 = c0\<lparr> ch_channelName := name, ch_channelUrl := url, ch_updatedAt := t3 \<rparr>"
      and len3: "length (youtubeChannel d3) = length (youtubeChannel d2)"
    by blast
  from c0 same have "ch_channelId c0 = ch_channelId c1" by simp
  with key_distinct_unique [OF cdist2 c1mem c0(1)] have "c0 = c1"
    by simp
  with c0 r1 have c2eq: "c2 = c1\<lparr> ch_updatedAt := t3 \<rparr>" by simp
  from r2 have d3v: "youtubeVideo d3 = youtubeVideo d2" by simp
  with s1 have vdist3: "distinct (map v_videoId (youtubeVideo d3))" by simp
  note s2 = upsertVideo_result [OF vdist3 v2, of t4]
  from s1 d3v have v1mem: "v1 \<in> set (youtubeVideo d3)" by simp
  with s1 have "vv_videoId vals \<in> v_videoId ` set (youtubeVideo d3)"
    by force
  with s2 obtain v0 where v0: "v0 \<in> set (youtubeVideo d3)" "v2 = videoConflictSet t4 vals v0"
      and len4: "length (youtubeVideo d4) = length (youtubeVideo d3)"
    by blast
  from v0 s2 have "v_videoId v0 = v_videoId v1"
    using s1 by (simp add: videoConflictSet_key)
  with key_distinct_unique [OF vdist3 v1mem v0(1)] have "v0 = v1"
    by simp
  with v0 s1 have v2eq: "v2 = v1\<lparr> v_updatedAt := t4 \<rparr>" by simp
  from s2 have d4c: "youtubeChannel d4 = youtubeChannel d3" by simp
  from r2 d4c have "c2 \<in> set (youtubeChannel d4)" "distinct (map ch_channelId (youtubeChannel d4))"
    by simp_all
  from filter_key_distinct [OF this(2) this(1)] same
  have f1: "filter (\<lambda>c. ch_channelId c = ch_channelId c1) (youtubeChannel d4) = [c2]" by simp
  from s2 have "v2 \<in> set (youtubeVideo d4)" "distinct (map v_videoId (youtubeVideo d4))"
      "v_videoId v2 = vv_videoId vals"
    by simp_all
  from filter_key_distinct [OF this(2) this(1)] this(3)
  have f2: "filter (\<lambda>v. v_videoId v = vv_videoId vals) (youtubeVideo d4) = [v2]" by simp
  from len3 d2c d4c have l1: "length (youtubeChannel d4) = length (youtubeChannel d1)" by simp
  from len4 d3v have l2: "length (youtubeVideo d4) = length (youtubeVideo d2)" by simp
  from r2 have cf: "extractChannelIdFromUrl url = Inr (ch_channelId c2)"
      "ch_channelName c2 = name" "ch_channelUrl c2 = url" "ch_updatedAt c2 = t3"
    by simp_all
  from s2 have vk: "v_videoId v2 = vv_videoId vals" by simp
  note vf = upsertVideo_fields [OF vdist3 v2]
  from f1 f2 l1 l2 c2eq v2eq have "filter (\<lambda>c. ch_channelId c = ch_channelId c1) (youtubeChannel d4) = [c2]
     \<and> filter (\<lambda>v. v_videoId v = vv_videoId vals) (youtubeVideo d4) = [v2]
     \<and> length (youtubeChannel d4) = length (youtubeChannel d1)
     \<and> length (youtubeVideo d4) = length (youtubeVideo d2)
     \<and> c2 = c1\<lparr> ch_updatedAt := t3 \<rparr>
     \<and> v2 = v1\<lparr> v_updatedAt := t4 \<rparr>"
    by (intro conjI)
  with cf vk vf show ?thesis
    by blast
qed

text \<open>
  The theorem applies: two passes on a database that holds the channel under an old name and
  URL, and no video. The first pass renames the channel row and inserts the video row; the
  second pass refreshes both.
\<close>

theorem upsert_twice_one_row_witness:
  "createChannelRecord db_stale 1 url_news ''News'' = Inr (channel_news 1, db_indexed 1 None)
   \<and> upsertVideo (db_indexed 1 None) 2 values_abc = Inr (video_abc 2, db_indexed 1 (Some 2))
   \<and> createChannelRecord (db_indexed 1 (Some 2)) 3 url_news ''News''
       = Inr (channel_news 3, db_indexed 3 (Some 2))
   \<and> upsertVideo (db_indexed 3 (Some 2)) 4 values_abc
       = Inr (video_abc 4, db_indexed 3 (Some 4))
   \<and> filter (\<lambda>c. ch_channelId c = ch_channelId (channel_news 1))
        (youtubeChannel (db_indexed 3 (Some 4))) = [channel_news 3]
   \<and> filter (\<lambda>v. v_videoId v = vv_videoId values_abc)
        (youtubeVideo (db_indexed 3 (Some 4))) = [video_abc 4]
   \<and> ch_channelName channel_stale = ''Old name''
   \<and> ch_channelName (channel_news 3) = ''News''
   \<and> v_title (video_abc 4) = ''Speech''"
proof -
  have cd: "distinct (map ch_channelId (youtubeChannel db_stale))"
    and vd: "distinct (map v_videoId (youtubeVideo db_stale))"
    by (simp_all add: db_stale_def db_empty_def)
  have c1: "createChannelRecord db_stale 1 url_news ''News''
      = Inr (channel_news 1, db_indexed 1 None)"
    by code_simp
  have v1: "upsertVideo (db_indexed 1 None) 2 values_abc
      = Inr (video_abc 2, db_indexed 1 (Some 2))"
    by code_simp
  have c2: "createChannelRecord (db_indexed 1 (Some 2)) 3 url_news ''News''
      = Inr (channel_news 3, db_indexed 3 (Some 2))"
    by code_simp
  have v2: "upsertVideo (db_indexed 3 (Some 2)) 4 values_abc
      = Inr (video_abc 4, db_indexed 3 (Some 4))"
    by code_simp
  from upsert_twice_one_row [OF cd vd c1 v1 c2 v2] c1 v1 c2 v2 show ?thesis
    by (simp add: channel_stale_def channel_news_def video_abc_def)
qed

section \<open>Progress of an indexing run\<close>

lemma progress_mono:
  "pc \<le> pc' \<Longrightarrow>
     round (20 + ((of_nat pc :: rat) / of_nat n) * 30)
       \<le> round (20 + ((of_nat pc' :: rat) / of_nat n) * 30)"
  by (intro round_mono add_left_mono mult_right_mono divide_right_mono) simp_all

lemma progress_ge_20: "20 \<le> round (20 + ((of_nat pc :: rat) / of_nat n) * 30)"
proof -
  have "(of_int 20 :: rat) \<le> 20 + ((of_nat pc :: rat) / of_nat n) * 30"
    by simp
  then have "round (of_int 20 :: rat) \<le> round (20 + ((of_nat pc :: rat) / of_nat n) * 30)"
    by (rule round_mono)
  then show ?thesis by (simp only: round_of_int)
qed

lemma progress_le_50:
  assumes "pc \<le> n"
  shows "round (20 + ((of_nat pc :: rat) / of_nat n) * 30) \<le> 50"
proof -
  from assms have "(of_nat pc :: rat) / of_nat n \<le> 1"
    by (cases "n = 0") (simp_all add: divide_le_eq_1)
  then have "((of_nat pc :: rat) / of_nat n) * 30 \<le> 1 * 30"
    by (intro mult_right_mono) simp_all
  then have "20 + ((of_nat pc :: rat) / of_nat n) * 30 \<le> of_int 50"
    by simp
  then have "round (20 + ((of_nat pc :: rat) / of_nat n) * 30) \<le> round (of_int 50 :: rat)"
    by (rule round_mono)
  then show ?thesis by (simp only: round_of_int)
qed

lemma updateIndexStatus_writes:
  assumes "updateIndexStatus e now u st = (r, st')"
  shows "ixr_channelDbId st' = ixr_channelDbId st
     \<and> (case r of None \<Rightarrow> ixr_writes st' = ixr_writes st @ [u_progress u]
                 | Some err \<Rightarrow> ixr_writes st' = ixr_writes st)"
  using assms
  by (auto simp: updateIndexStatus_def split: option.splits if_splits)

lemma batchLoop_writes:
  "batchLoop e now videos i pc st = (r, st') \<Longrightarrow> pc = min i (length videos) \<Longrightarrow>
     \<exists>ws. ixr_writes st' = ixr_writes st @ ws \<and> sorted ws
       \<and> (\<forall>w\<in>set ws. round (20 + ((of_nat pc :: rat) / of_nat (length videos)) * 30) \<le> w
                     \<and> w \<le> 50)"
proof (induction "length videos - i" arbitrary: i pc st r st' rule: less_induct)
  case less
  let ?n = "length videos"
  show ?case
  proof (cases "i < ?n")
    case False
    with less.prems(1) have "st' = st"
      by (subst (asm) batchLoop.simps) simp
    then show ?thesis by simp
  next
    case True
    show ?thesis
    proof (cases "ixr_channelDbId st")
      case None
      with True less.prems(1) have "st' = st"
        by (subst (asm) batchLoop.simps) (simp add: Let_def)
      then show ?thesis by simp
    next
      case (Some cid)
      define batch where "batch = take BATCH_SIZE (drop i videos)"
      define st1 where "st1 = st\<lparr> ixr_db := ix_processBatch e cid batch (ixr_db st) \<rparr>"
      define pc' where "pc' = pc + length batch"
      define progress where
        "progress = round (20 + ((of_nat pc' :: rat) / of_nat ?n) * 30)"
      define u where "u = \<lparr> u_status = ''indexing_videos'', u_progress = progress,
                             u_totalVideos = ?n, u_processedVideos = pc',
                             u_errorMessage = None \<rparr>"
      obtain r2 st2 where upd: "updateIndexStatus e now u st1 = (r2, st2)"
        by (cases "updateIndexStatus e now u st1")
      from True less.prems(2) have pc: "pc = i" by simp
      with True have pc'_eq: "pc' = min (i + BATCH_SIZE) ?n"
        by (auto simp: pc'_def batch_def BATCH_SIZE_def min_def)
      then have pc'_le: "pc' \<le> ?n" by simp
      have pc_le: "pc \<le> pc'" by (simp add: pc'_def)
      have p_lo: "round (20 + ((of_nat pc :: rat) / of_nat ?n) * 30) \<le> progress"
        unfolding progress_def using pc_le by (rule progress_mono)
      have p_hi: "progress \<le> 50"
        unfolding progress_def using pc'_le by (rule progress_le_50)
      from updateIndexStatus_writes [OF upd]
      have w2: "case r2 of None \<Rightarrow> ixr_writes st2 = ixr_writes st @ [progress]
                         | Some err \<Rightarrow> ixr_writes st2 = ixr_writes st"
        by (simp add: st1_def u_def split: option.splits)
      have step: "batchLoop e now videos i pc st =
          (case r2 of Some err \<Rightarrow> (Some err, st2)
                    | None \<Rightarrow> batchLoop e now videos (i + BATCH_SIZE) pc' st2)"
        using True Some upd
        by (subst batchLoop.simps)
           (simp add: Let_def batch_def st1_def pc'_def progress_def u_def split: option.splits)
      show ?thesis
      proof (cases r2)
        case (Some err)
        with step less.prems(1) w2 have "ixr_writes st' = ixr_writes st" by simp
        then show ?thesis by simp
      next
        case None
        with step less.prems(1)
        have rec: "batchLoop e now videos (i + BATCH_SIZE) pc' st2 = (r, st')" by simp
        from True have "?n - (i + BATCH_SIZE) < ?n - i"
          by (simp add: BATCH_SIZE_def)
        from less.hyps [OF this rec pc'_eq] obtain ws where
          ws: "ixr_writes st' = ixr_writes st2 @ ws" "sorted ws"
            "\<forall>w\<in>set ws. progress \<le> w \<and> w \<le> 50"
          unfolding progress_def by blast
        from None w2 have "ixr_writes st2 = ixr_writes st @ [progress]" by simp
        with ws have "ixr_writes st' = ixr_writes st @ (progress # ws)" by simp
        moreover from ws have "sorted (progress # ws)" by simp
        moreover from ws p_lo p_hi
        have "\<forall>w\<in>set (progress # ws).
                round (20 + ((of_nat pc :: rat) / of_nat ?n) * 30) \<le> w \<and> w \<le> 50"
          by auto
        ultimately show ?thesis by blast
      qed
    qed
  qed
qed


lemma indexChannel_videos_writes:
  "\<exists>ws. ixr_writes (snd (indexChannel_videos e now channel videos st)) = ixr_writes st @ ws
       \<and> sorted ws"
proof -
  define u1 where "u1 = \<lparr> u_status = ''indexing_videos'', u_progress = 10,
      u_totalVideos = length videos, u_processedVideos = 0, u_errorMessage = None \<rparr>"
  obtain r3 st3 where upd: "updateIndexStatus e now u1 st = (r3, st3)"
    by (cases "updateIndexStatus e now u1 st")
  note w3 = updateIndexStatus_writes [OF upd]
  show ?thesis
  proof (cases r3)
    case (Some err)
    with upd w3 show ?thesis
      by (simp add: indexChannel_videos_def flip: u1_def)
  next
    case None
    with w3 have w3': "ixr_writes st3 = ixr_writes st @ [10]"
      by (simp add: u1_def)
    obtain r4 st4 where loop: "batchLoop e now videos 0 0 st3 = (r4, st4)"
      by (cases "batchLoop e now videos 0 0 st3")
    from batchLoop_writes [OF loop] obtain ws where
      ws: "ixr_writes st4 = ixr_writes st3 @ ws" "sorted ws" "\<forall>w\<in>set ws. 20 \<le> w \<and> w \<le> 50"
      using progress_ge_20 [of 0 "length videos"] by force
    then have mid: "ixr_writes st4 = ixr_writes st @ (10 # ws)" "sorted (10 # ws)"
      using w3' by auto
    show ?thesis
    proof (cases r4)
      case (Some err)
      with upd None loop mid show ?thesis
        by (auto simp: indexChannel_videos_def simp flip: u1_def)
    next
      case None' : None
      show ?thesis
      proof (cases "ix_mark_fails e")
        case True
        with upd None loop None' mid show ?thesis
          by (auto simp: indexChannel_videos_def simp flip: u1_def)
      next
        case False
        define u2 where "u2 = \<lparr> u_status = ''completed'', u_progress = 100,
            u_totalVideos = length videos, u_processedVideos = length videos,
            u_errorMessage = None \<rparr>"
        define st5 where
          "st5 = st4\<lparr> ixr_db := markChannelAsIndexed (ixr_db st4) now (ch_id channel) \<rparr>"
        obtain r6 st6 where fin: "updateIndexStatus e now u2 st5 = (r6, st6)"
          by (cases "updateIndexStatus e now u2 st5")
        from upd None loop None' False fin
        have res: "indexChannel_videos e now channel videos st = (r6, st6)"
          by (simp add: indexChannel_videos_def flip: u1_def u2_def st5_def)
        from updateIndexStatus_writes [OF fin]
        have "ixr_writes st6 = ixr_writes st4 \<or> ixr_writes st6 = ixr_writes st4 @ [100]"
          by (auto simp: st5_def u2_def split: option.splits)
        then show ?thesis
        proof
          assume "ixr_writes st6 = ixr_writes st4"
          with res mid show ?thesis by auto
        next
          assume "ixr_writes st6 = ixr_writes st4 @ [100]"
          with mid have "ixr_writes st6 = ixr_writes st @ (10 # ws @ [100])" by simp
          moreover from ws have "sorted (10 # ws @ [100])"
            by (auto simp: sorted_append)
          ultimately show ?thesis using res by auto
        qed
      qed
    qed
  qed
qed

lemma indexChannel_try_writes:
  "\<exists>ws. ixr_writes (snd (indexChannel_try e now url name maxVideos st)) = ixr_writes st @ ws
       \<and> sorted ws"
proof -
  have triv: "\<exists>ws. ixr_writes st = ixr_writes st @ ws \<and> sorted ws"
    by simp
  show ?thesis
  proof (cases "ix_channel_record_fails e")
    case True
    with triv show ?thesis by (simp add: indexChannel_try_def)
  next
    case nf: False
    show ?thesis
    proof (cases "createChannelRecord (ixr_db st) now url name")
      case (Inl err)
      with nf triv show ?thesis by (simp add: indexChannel_try_def)
    next
      case (Inr p)
      obtain channel d1 where p: "p = (channel, d1)" by (cases p)
      show ?thesis
      proof (cases "ix_status_insert_fails e")
        case True
        with nf Inr p triv show ?thesis by (simp add: indexChannel_try_def)
      next
        case ns: False
        show ?thesis
        proof (cases "ix_fetch_result e")
          case (Inl err)
          with nf Inr p ns triv show ?thesis by (simp add: indexChannel_try_def)
        next
          case fetched: (Inr allVideos)
          define videos where "videos = (case maxVideos of None \<Rightarrow> allVideos
              | Some m \<Rightarrow> if m = 0 then allVideos else slice0 m allVideos)"
          define st2 where "st2 = st\<lparr> ixr_channelDbId := Some (ch_id channel),
              ixr_db := createIndexStatusRecord d1 (ch_id channel) \<rparr>"
          from nf Inr p ns fetched
          have "indexChannel_try e now url name maxVideos st
              = indexChannel_videos e now channel videos st2"
            by (simp add: indexChannel_try_def Let_def videos_def st2_def)
          moreover have "ixr_writes st2 = ixr_writes st"
            by (simp add: st2_def)
          ultimately show ?thesis
            using indexChannel_videos_writes [of e now channel videos st2] by simp
        qed
      qed
    qed
  qed
qed

text \<open>
  C3 (as the code has it). Within a single run of \<open>indexChannel\<close>, the progress values
  written by the \<open>try\<close> block (10, the value after each batch, 100) are non-decreasing, so
  a run that completes writes a non-decreasing sequence; when the run fails, the handler
  writes at most one further value, the progress 0 of the failure status.
\<close>

theorem indexChannel_progress_order:
  assumes "ixr_writes st = []"
  shows "sorted (ixr_writes (snd (indexChannel_try e now url name maxVideos st)))
     \<and> (fst (indexChannel e now url name maxVideos st) = None \<longrightarrow>
          sorted (ixr_writes (snd (indexChannel e now url name maxVideos st))))
     \<and> (ixr_writes (snd (indexChannel e now url name maxVideos st))
            = ixr_writes (snd (indexChannel_try e now url name maxVideos st))
        \<or> ixr_writes (snd (indexChannel e now url name maxVideos st))
            = ixr_writes (snd (indexChannel_try e now url name maxVideos st)) @ [0])"
proof -
  obtain r st' where body: "indexChannel_try e now url name maxVideos st = (r, st')"
    by (cases "indexChannel_try e now url name maxVideos st")
  from indexChannel_try_writes [of e now url name maxVideos st] assms body
  have sorted_body: "sorted (ixr_writes st')" by auto
  show ?thesis
  proof (cases r)
    case None
    with body sorted_body show ?thesis
      by (simp add: indexChannel_def)
  next
    case (Some err)
    define u where "u = \<lparr> u_status = ''failed'', u_progress = 0, u_totalVideos = 0,
        u_processedVideos = 0, u_errorMessage = Some (ix_error_message e err) \<rparr>"
    obtain r' st'' where h: "updateIndexStatus e now u st' = (r', st'')"
      by (cases "updateIndexStatus e now u st'")
    from updateIndexStatus_writes [OF h]
    have w: "ixr_writes st'' = ixr_writes st' \<or> ixr_writes st'' = ixr_writes st' @ [0]"
      by (auto simp: u_def split: option.splits)
    from body Some h have "indexChannel e now url name maxVideos st
        = (case r' of Some err' \<Rightarrow> (Some err', st'') | None \<Rightarrow> (Some err, st''))"
      by (simp add: indexChannel_def flip: u_def split: option.splits)
    then have "fst (indexChannel e now url name maxVideos st) \<noteq> None"
        "snd (indexChannel e now url name maxVideos st) = st''"
      by (simp_all split: option.splits)
    with body sorted_body w show ?thesis by auto
  qed
qed

text \<open>The theorem applies: a run over seven videos that completes.\<close>

theorem indexChannel_progress_order_witness:
  "ixr_writes indexer_new = []
   \<and> fst (indexChannel ienv_ok 5 url_news ''News'' None indexer_new) = None
   \<and> ixr_writes (snd (indexChannel ienv_ok 5 url_news ''News'' None indexer_new))
       = [10, 33, 46, 50, 100]
   \<and> sorted (ixr_writes (snd (indexChannel ienv_ok 5 url_news ''News'' None indexer_new)))"
proof -
  have new: "ixr_writes indexer_new = []"
    by (simp add: indexer_new_def)
  have run: "fst (indexChannel ienv_ok 5 url_news ''News'' None indexer_new) = None
     \<and> ixr_writes (snd (indexChannel ienv_ok 5 url_news ''News'' None indexer_new))
         = [10, 33, 46, 50, 100]"
    by code_simp
  from indexChannel_progress_order [OF new, of ienv_ok 5 url_news "''News''" None] new run
  show ?thesis by simp
qed

text \<open>
  C3 (as the specification states it) fails: when the statement that marks the channel as
  indexed is rejected after the seven videos are processed, the run fails and the handler
  writes progress 0 after 10, 33, 46 and 50.
\<close>

theorem indexChannel_failure_resets_progress:
  "ixr_writes indexer_new = []
   \<and> fst (indexChannel ienv_mark_down 5 url_news ''News'' None indexer_new) = Some DbError
   \<and> ixr_writes (snd (indexChannel ienv_mark_down 5 url_news ''News'' None indexer_new))
       = [10, 33, 46, 50, 0]
   \<and> \<not> sorted (ixr_writes (snd (indexChannel ienv_mark_down 5 url_news ''News'' None indexer_new)))"
proof -
  have run: "ixr_writes indexer_new = []
     \<and> fst (indexChannel ienv_mark_down 5 url_news ''News'' None indexer_new) = Some DbError
     \<and> ixr_writes (snd (indexChannel ienv_mark_down 5 url_news ''News'' None indexer_new))
         = [10, 33, 46, 50, 0]"
    by code_simp
  then show ?thesis by simp
qed

end
